theory Spec2Isabelle
  imports Main "HOL-Library.Sublist"
begin

section \<open>Values of the parsed document and of the attribute trees\<close>

text \<open>
  The migrator works on what \<^verbatim>\<open>yaml.safe_load\<close> returns and builds component
  dictionaries from it. A value is \<^verbatim>\<open>None\<close>, a bool, an int, a str, a list or a
  dict with string keys; a dict is an association list, because Python dicts keep the
  insertion order and the formatter prints in that order. A character is a code point
  below 256. Floating-point scalars are left out of the value type.
\<close>

datatype pv =
    PNone
  | PBool bool
  | PInt int
  | PStr string
  | PList "pv list"
  | PDict "(string \<times> pv) list"

type_synonym dict = "(string \<times> pv) list"

datatype error =
    KeyError string
  | AttributeError
  | TypeError

subsection \<open>Dictionary primitives\<close>

text \<open>\<^verbatim>\<open>k in d\<close>, \<^verbatim>\<open>d[k]\<close>, \<^verbatim>\<open>d.get(k, default)\<close> and \<^verbatim>\<open>d[k] = v\<close> on a dict:
  an assignment to a key the dict has keeps the key's place, a new key goes last.\<close>

definition has_key :: "string \<Rightarrow> dict \<Rightarrow> bool" where
  "has_key k d = (map_of d k \<noteq> None)"

definition dict_get :: "dict \<Rightarrow> string \<Rightarrow> pv \<Rightarrow> pv" where
  "dict_get d k dflt = (case map_of d k of None \<Rightarrow> dflt | Some v \<Rightarrow> v)"

fun dict_set :: "string \<Rightarrow> pv \<Rightarrow> dict \<Rightarrow> dict" where
  "dict_set k v [] = [(k, v)]"
| "dict_set k v ((k', v') # d) =
     (if k' = k then (k, v) # d else (k', v') # dict_set k v d)"

text \<open>\<^verbatim>\<open>d.update(e)\<close>: the items of \<open>e\<close> are assigned in order.\<close>

fun dict_update :: "dict \<Rightarrow> dict \<Rightarrow> dict" where
  "dict_update d [] = d"
| "dict_update d ((k, v) # e) = dict_update (dict_set k v d) e"

text \<open>\<^verbatim>\<open>x[k]\<close> and \<^verbatim>\<open>x.get(k, default)\<close> on a value that the code takes for a dict:
  a missing key raises KeyError, a value that is no dict raises TypeError on the
  subscript and AttributeError on the method call.\<close>

fun subscript :: "pv \<Rightarrow> string \<Rightarrow> error + pv" where
  "subscript (PDict d) k = (case map_of d k of None \<Rightarrow> Inl (KeyError k) | Some v \<Rightarrow> Inr v)"
| "subscript _ k = Inl TypeError"

fun pv_get :: "pv \<Rightarrow> string \<Rightarrow> pv \<Rightarrow> error + pv" where
  "pv_get (PDict d) k dflt = Inr (dict_get d k dflt)"
| "pv_get _ k dflt = Inl AttributeError"

text \<open>\<^verbatim>\<open>x.items()\<close>.\<close>

fun pv_items :: "pv \<Rightarrow> error + dict" where
  "pv_items (PDict d) = Inr d"
| "pv_items _ = Inl AttributeError"

text \<open>Truth value of a value in a condition.\<close>

fun truthy :: "pv \<Rightarrow> bool" where
  "truthy PNone = False"
| "truthy (PBool b) = b"
| "truthy (PInt i) = (i \<noteq> 0)"
| "truthy (PStr s) = (s \<noteq> [])"
| "truthy (PList xs) = (xs \<noteq> [])"
| "truthy (PDict d) = (d \<noteq> [])"

subsection \<open>Strings\<close>

definition startswith :: "string \<Rightarrow> string \<Rightarrow> bool" where
  "startswith s p = (take (length p) s = p)"

text \<open>\<^verbatim>\<open>sep.join(xs)\<close>.\<close>

fun join :: "string \<Rightarrow> string list \<Rightarrow> string" where
  "join sep [] = []"
| "join sep [x] = x"
| "join sep (x # y # ys) = x @ sep @ join sep (y # ys)"

definition dq :: char where
  "dq = CHR 0x22"

definition bs :: char where
  "bs = CHR 0x5C"

definition nl :: string where
  "nl = [CHR 0x0A]"

definition digit_char :: "nat \<Rightarrow> char" where
  "digit_char d = char_of (48 + d)"

text \<open>Decimal digits of a natural number, as \<^verbatim>\<open>str\<close> prints an index.\<close>

fun str_nat :: "nat \<Rightarrow> string" where
  "str_nat n = (if n < 10 then [digit_char n] else str_nat (n div 10) @ [digit_char (n mod 10)])"

declare str_nat.simps [simp del]

definition str_int :: "int \<Rightarrow> string" where
  "str_int i = (if i < 0 then CHR ''-'' # str_nat (nat (- i)) else str_nat (nat i))"

definition hex_char :: "nat \<Rightarrow> char" where
  "hex_char d = (if d < 10 then char_of (48 + d) else char_of (87 + d))"

definition hex2 :: "nat \<Rightarrow> string" where
  "hex2 n = [hex_char (n div 16 mod 16), hex_char (n mod 16)]"

subsection \<open>\<^verbatim>\<open>json.dumps\<close>\<close>

text \<open>
  The library's encoder with its defaults (\<^verbatim>\<open>ensure_ascii=True\<close>, separators
  \<^verbatim>\<open>", "\<close> and \<^verbatim>\<open>": "\<close>): a quote, a backslash and the five short escapes are
  escaped by name, every other character outside the range from space to tilde as
  \<^verbatim>\<open>\u00XX\<close>.
\<close>

definition json_escape_char :: "char \<Rightarrow> string" where
  "json_escape_char c =
     (if c = dq then [bs, dq]
      else if c = bs then [bs, bs]
      else if c = CHR 0x0A then [bs, CHR ''n'']
      else if c = CHR 0x0D then [bs, CHR ''r'']
      else if c = CHR 0x09 then [bs, CHR ''t'']
      else if c = CHR 0x08 then [bs, CHR ''b'']
      else if c = CHR 0x0C then [bs, CHR ''f'']
      else if (of_char c :: nat) < 32 \<or> 126 < (of_char c :: nat)
        then [bs, CHR ''u'', CHR ''0'', CHR ''0''] @ hex2 (of_char c)
      else [c])"

definition json_string :: "string \<Rightarrow> string" where
  "json_string s = [dq] @ concat (map json_escape_char s) @ [dq]"

fun json_dumps :: "pv \<Rightarrow> string" where
  "json_dumps PNone = ''null''"
| "json_dumps (PBool b) = (if b then ''true'' else ''false'')"
| "json_dumps (PInt i) = str_int i"
| "json_dumps (PStr s) = json_string s"
| "json_dumps (PList xs) = ''['' @ join '', '' (map json_dumps xs) @ '']''"
| "json_dumps (PDict d) =
     ''{'' @ join '', '' (map (\<lambda>(k, v). json_string k @ '': '' @ json_dumps v) d) @ ''}''"

subsection \<open>\<^verbatim>\<open>str\<close> and \<^verbatim>\<open>repr\<close>, as an f-string applies them\<close>

text \<open>
  \<^verbatim>\<open>repr\<close> of a str picks the double quote when the text has a single quote and no
  double quote, and escapes the quote, the backslash, tab, newline, carriage return and
  the characters that are not printable.
\<close>

definition repr_quote :: "string \<Rightarrow> char" where
  "repr_quote s = (if CHR 0x27 \<in> set s \<and> dq \<notin> set s then dq else CHR 0x27)"

definition repr_char :: "char \<Rightarrow> char \<Rightarrow> string" where
  "repr_char q c =
     (if c = q \<or> c = bs then [bs, c]
      else if c = CHR 0x09 then [bs, CHR ''t'']
      else if c = CHR 0x0A then [bs, CHR ''n'']
      else if c = CHR 0x0D then [bs, CHR ''r'']
      else if (of_char c :: nat) < 32 \<or> (127 \<le> (of_char c :: nat) \<and> (of_char c :: nat) \<le> 160)
              \<or> (of_char c :: nat) = 173
        then [bs, CHR ''x''] @ hex2 (of_char c)
      else [c])"

definition repr_str :: "string \<Rightarrow> string" where
  "repr_str s = (let q = repr_quote s in [q] @ concat (map (repr_char q) s) @ [q])"

fun py_repr :: "pv \<Rightarrow> string" where
  "py_repr PNone = ''None''"
| "py_repr (PBool b) = (if b then ''True'' else ''False'')"
| "py_repr (PInt i) = str_int i"
| "py_repr (PStr s) = repr_str s"
| "py_repr (PList xs) = ''['' @ join '', '' (map py_repr xs) @ '']''"
| "py_repr (PDict d) =
     ''{'' @ join '', '' (map (\<lambda>(k, v). repr_str k @ '': '' @ py_repr v) d) @ ''}''"

fun py_str :: "pv \<Rightarrow> string" where
  "py_str (PStr s) = s"
| "py_str v = py_repr v"

section \<open>The value formatter\<close>

text \<open>\<^verbatim>\<open>_format_config_value\<close> returns the lines of one attribute. Its cases, in the
  order of the source: a list under the key \<^verbatim>\<open>stages\<close>; a dict; a list (of dicts, under
  \<^verbatim>\<open>forward_to\<close>, any other); a str that names a component; everything else.\<close>

definition spaces :: "nat \<Rightarrow> string" where
  "spaces n = replicate n (CHR '' '')"

definition is_dict :: "pv \<Rightarrow> bool" where
  "is_dict v = (case v of PDict d \<Rightarrow> True | _ \<Rightarrow> False)"

text \<open>One key of a stage dict in a \<^verbatim>\<open>loki.process\<close> block: the key \<^verbatim>\<open>type\<close> is the
  block's head and prints nothing here.\<close>

definition format_stage_attr :: "string \<Rightarrow> string \<times> pv \<Rightarrow> string list" where
  "format_stage_attr indent_str kv =
     (case kv of (k, v) \<Rightarrow>
        if k = ''type'' then []
        else (case v of
            PDict d \<Rightarrow>
              [indent_str @ ''  '' @ k @ '' = {'']
              @ map (\<lambda>(kk, vv). indent_str @ ''    '' @ kk @ '' = '' @ json_dumps vv) d
              @ [indent_str @ ''  }'']
          | _ \<Rightarrow> [indent_str @ ''  '' @ k @ '' = '' @ json_dumps v]))"

definition format_stage :: "string \<Rightarrow> pv \<Rightarrow> string list" where
  "format_stage indent_str stage =
     (case stage of
        PDict d \<Rightarrow>
          (case map_of d ''type'' of
             Some stage_type \<Rightarrow>
               [indent_str @ py_str stage_type @ '' {'']
               @ concat (map (format_stage_attr indent_str) d)
               @ [indent_str @ ''}'', []]
           | None \<Rightarrow> [])
      | _ \<Rightarrow> [])"

text \<open>A dict under \<^verbatim>\<open>labels\<close> or \<^verbatim>\<open>external_labels\<close>.\<close>

definition format_label_dict :: "string \<Rightarrow> string \<Rightarrow> dict \<Rightarrow> string list" where
  "format_label_dict indent_str key d =
     (if d \<noteq> [] then
        [indent_str @ key @ '' = {'',
         indent_str @ ''  '' @ join '', '' (map (\<lambda>(k, v). k @ '' = '' @ json_dumps v) d) @ '','',
         indent_str @ ''}'']
      else [indent_str @ key @ '' = {}''])"

text \<open>A list whose elements are all dicts (the empty list is one): one element, or any
  other number of them.\<close>

definition format_dict_list :: "string \<Rightarrow> string \<Rightarrow> pv list \<Rightarrow> string list" where
  "format_dict_list indent_str key xs =
     (if length xs = 1 then
        [indent_str @ key @ '' = [{'']
        @ (case hd xs of
             PDict d \<Rightarrow> map (\<lambda>(k, v). indent_str @ ''  '' @ k @ '' = '' @ json_dumps v @ '','') d
           | _ \<Rightarrow> [])
        @ [indent_str @ ''}]'']
      else
        [indent_str @ key @ '' = ['']
        @ concat (map (\<lambda>item.
            [indent_str @ ''  {'']
            @ (case item of
                 PDict d \<Rightarrow> map (\<lambda>(k, v). indent_str @ ''    '' @ k @ '' = '' @ json_dumps v @ '','') d
               | _ \<Rightarrow> [])
            @ [indent_str @ ''  },'']) xs)
        @ [indent_str @ '']''])"

text \<open>An element of a \<^verbatim>\<open>forward_to\<close> list.\<close>

definition forward_ref :: "pv \<Rightarrow> string" where
  "forward_ref item =
     (case item of
        PStr s \<Rightarrow> if startswith s ''loki.'' \<or> startswith s ''prometheus.'' then s
                  else json_dumps item
      | _ \<Rightarrow> json_dumps item)"

fun format_config_value :: "string \<Rightarrow> pv \<Rightarrow> nat \<Rightarrow> string list" where
  "format_config_value key (PList xs) indent =
     (if key = ''stages'' then concat (map (format_stage (spaces indent)) xs)
      else if list_all is_dict xs then format_dict_list (spaces indent) key xs
      else if key = ''forward_to'' then
        [spaces indent @ key @ '' = ['' @ join '', '' (map forward_ref xs) @ '']'']
      else [spaces indent @ key @ '' = '' @ json_dumps (PList xs)])"
| "format_config_value key (PDict d) indent =
     (if key = ''labels'' \<or> key = ''external_labels'' then format_label_dict (spaces indent) key d
      else if d \<noteq> [] then
        [spaces indent @ key @ '' {'']
        @ concat (map (\<lambda>(k, v). format_config_value k v (indent + 2)) d)
        @ [spaces indent @ ''}'']
      else [spaces indent @ key @ '' = {}''])"
| "format_config_value key (PStr s) indent =
     (if startswith s ''local.'' \<or> startswith s ''loki.'' \<or> startswith s ''prometheus.''
      then [spaces indent @ key @ '' = '' @ s]
      else [spaces indent @ key @ '' = '' @ json_dumps (PStr s)])"
| "format_config_value key v indent = [spaces indent @ key @ '' = '' @ json_dumps v]"

section \<open>The source document\<close>

text \<open>
  The parsed Promtail document has the shapes the migrator reads: lists where it
  iterates, dicts where it tests a key, and an optional field for every key it looks
  up with \<^verbatim>\<open>in\<close> or \<^verbatim>\<open>get\<close>. A pipeline stage is a dict; its recognised keys
  are the fields of \<open>Stage\<close>, so a stage with several keys, or with none of them, is a
  value of the type and the order of the \<^verbatim>\<open>if\<close>/\<^verbatim>\<open>elif\<close> chains decides.
\<close>

datatype stage =
  Stage (st_regex: "pv option") (st_json: "pv option") (st_labels: "pv option")
        (st_output: "pv option") (st_template: "pv option")
        (st_match: "match_cfg option") (st_metrics: "pv option")
and match_cfg =
  Match (m_selector: "pv option") (m_pipeline_name: "pv option") (m_action: "pv option")
        (m_stages: "stage list option")

record client =
  url :: "pv option"
  basic_auth :: "pv option"

record static_config =
  targets :: "pv list option"
  labels :: "dict option"

record journal_config =
  max_age :: "pv option"
  journal_labels :: "pv option"

record scrape_config =
  job_name :: "string option"
  static_configs :: "static_config list option"
  journal :: "journal_config option"
  pipeline_stages :: "stage list option"
  relabel_configs :: "dict list option"

record promtail_config =
  clients :: "client list option"
  scrape_configs :: "scrape_config list option"

text \<open>A component of the output: the dict with the keys \<^verbatim>\<open>type\<close>, \<^verbatim>\<open>id\<close> and
  \<^verbatim>\<open>config\<close>.\<close>

record component =
  ctype :: string
  cid :: string
  config :: dict

text \<open>An exception leaves the enclosing function at once: the rest runs on a result only.\<close>

definition ebind :: "error + 'a \<Rightarrow> ('a \<Rightarrow> error + 'b) \<Rightarrow> error + 'b" where
  "ebind m f = (case m of Inl e \<Rightarrow> Inl e | Inr x \<Rightarrow> f x)"

text \<open>\<^verbatim>\<open>k in x\<close> where the code takes \<open>x\<close> for a dict: on a str it is the substring test,
  on a list membership, on the other scalars a TypeError.\<close>

definition is_substring :: "string \<Rightarrow> string \<Rightarrow> bool" where
  "is_substring k s = list_ex (\<lambda>i. take (length k) (drop i s) = k) [0..<Suc (length s)]"

fun pv_contains :: "string \<Rightarrow> pv \<Rightarrow> error + bool" where
  "pv_contains k (PDict d) = Inr (has_key k d)"
| "pv_contains k (PList xs) = Inr (PStr k \<in> set xs)"
| "pv_contains k (PStr s) = Inr (is_substring k s)"
| "pv_contains k _ = Inl TypeError"

section \<open>The stage translator\<close>

subsection \<open>Structured mode: \<^verbatim>\<open>_convert_stage_to_dict\<close>\<close>

text \<open>The result \<open>None\<close> is Python's \<^verbatim>\<open>None\<close>: the stage gives no attribute tree.\<close>

definition convert_stage_to_dict :: "stage \<Rightarrow> error + pv option" where
  "convert_stage_to_dict stage =
     (case st_regex stage of
        Some r \<Rightarrow>
          ebind (subscript r ''expression'') (\<lambda>e.
          Inr (Some (PDict [(''type'', PStr ''stage.regex''), (''expression'', e)])))
      | None \<Rightarrow>
     (case st_json stage of
        Some j \<Rightarrow>
          ebind (pv_get j ''expressions'' (PDict [])) (\<lambda>es.
          ebind (pv_get j ''source'' (PStr [])) (\<lambda>s.
          Inr (Some (PDict [(''type'', PStr ''stage.json''), (''expressions'', es),
                            (''source'', s)]))))
      | None \<Rightarrow>
     (case st_labels stage of
        Some l \<Rightarrow> Inr (Some (PDict [(''type'', PStr ''stage.labels''), (''values'', l)]))
      | None \<Rightarrow>
     (case st_output stage of
        Some out \<Rightarrow>
          ebind (subscript out ''source'') (\<lambda>s.
          Inr (Some (PDict [(''type'', PStr ''stage.output''), (''source'', s)])))
      | None \<Rightarrow>
     (case st_template stage of
        Some t \<Rightarrow>
          ebind (subscript t ''source'') (\<lambda>s.
          ebind (subscript t ''template'') (\<lambda>tpl.
          Inr (Some (PDict [(''type'', PStr ''stage.template''), (''source'', s),
                            (''template'', tpl)]))))
      | None \<Rightarrow>
     (case st_match stage of
        Some m \<Rightarrow> Inr None
      | None \<Rightarrow>
     (case st_metrics stage of
        Some m \<Rightarrow> Inr None
      | None \<Rightarrow> Inr None)))))))"

text \<open>The loop of \<^verbatim>\<open>_convert_pipeline_stages_for_process\<close>: a stage whose result is
  \<^verbatim>\<open>None\<close> (or an empty dict) is left out.\<close>

fun process_stage_list :: "stage list \<Rightarrow> error + pv list" where
  "process_stage_list [] = Inr []"
| "process_stage_list (stage # rest) =
     ebind (convert_stage_to_dict stage) (\<lambda>stage_config.
     ebind (process_stage_list rest) (\<lambda>alloy_stages.
     Inr (case stage_config of
            Some c \<Rightarrow> if truthy c then c # alloy_stages else alloy_stages
          | None \<Rightarrow> alloy_stages)))"

definition convert_pipeline_stages_for_process :: "stage list \<Rightarrow> error + pv list" where
  "convert_pipeline_stages_for_process stages =
     (if stages = [] then Inr [] else process_stage_list stages)"

subsection \<open>Inline mode: \<^verbatim>\<open>_convert_single_stage\<close> and its helpers\<close>

definition convert_metrics_stage :: "pv \<Rightarrow> string" where
  "convert_metrics_stage metrics = ''metrics { /* Metrics configuration requires manual review */ }''"

definition convert_json_stage :: "pv \<Rightarrow> error + string" where
  "convert_json_stage json_config =
     ebind (pv_contains ''source'' json_config) (\<lambda>has_source.
     ebind (if has_source then ebind (subscript json_config ''source'') (\<lambda>s.
                                 Inr [''  source = '' @ [dq] @ py_str s @ [dq]])
            else Inr []) (\<lambda>source_part.
     ebind (pv_contains ''expressions'' json_config) (\<lambda>has_expressions.
     ebind (if has_expressions then
              ebind (subscript json_config ''expressions'') (\<lambda>es.
              ebind (pv_items es) (\<lambda>items.
              Inr ([''  expressions = {'']
                   @ map (\<lambda>(k, v). ''    '' @ k @ '' = '' @ [dq] @ py_str v @ [dq]) items
                   @ [''  }''])))
            else Inr []) (\<lambda>expressions_part.
     Inr (join nl ([''json {''] @ source_part @ expressions_part @ [''}'']))))))"

definition label_part :: "string \<times> pv \<Rightarrow> string" where
  "label_part kv =
     (case kv of (k, v) \<Rightarrow>
        if v = PNone \<or> v = PStr [] then k @ '' = '' @ [dq, dq]
        else (case v of
                PStr s \<Rightarrow> k @ '' = '' @ json_dumps v
              | _ \<Rightarrow> k @ '' = '' @ py_str v))"

definition convert_labels_stage :: "pv \<Rightarrow> error + string" where
  "convert_labels_stage l =
     (if \<not> truthy l then Inr ''labels {}''
      else ebind (pv_items l) (\<lambda>items.
           Inr (''labels { '' @ join '', '' (map label_part items) @ '' }'')))"

definition convert_regex_stage :: "pv \<Rightarrow> error + string" where
  "convert_regex_stage r =
     ebind (subscript r ''expression'') (\<lambda>e.
     Inr (''regex { expression = '' @ json_dumps e @ '' }''))"

definition convert_template_stage :: "pv \<Rightarrow> error + string" where
  "convert_template_stage t =
     ebind (subscript t ''source'') (\<lambda>s.
     ebind (subscript t ''template'') (\<lambda>tpl.
     Inr (''template { source = '' @ [dq] @ py_str s @ [dq] @ '', template = ''
          @ json_dumps tpl @ '' }'')))"

definition convert_output_stage :: "pv \<Rightarrow> error + string" where
  "convert_output_stage out =
     ebind (subscript out ''source'') (\<lambda>s.
     Inr (''output { source = '' @ [dq] @ py_str s @ [dq] @ '' }''))"

text \<open>The head lines of a match block: each of the three fields gives a line when the
  match dict has the key.\<close>

definition match_header :: "match_cfg \<Rightarrow> string list" where
  "match_header m =
     (case m_selector m of Some s \<Rightarrow> [''  selector = '' @ json_dumps s] | None \<Rightarrow> [])
     @ (case m_pipeline_name m of Some p \<Rightarrow> [''  pipeline_name = '' @ json_dumps p] | None \<Rightarrow> [])
     @ (case m_action m of Some a \<Rightarrow> [''  action = '' @ [dq] @ py_str a @ [dq]] | None \<Rightarrow> [])"

text \<open>\<open>nested_stage_lines\<close> is the loop over \<^verbatim>\<open>match['stages']\<close>: it collects the
  line of every nested stage whose translation is not the empty string.\<close>

fun convert_single_stage :: "stage \<Rightarrow> error + string"
and convert_match_stage :: "match_cfg \<Rightarrow> error + string"
and nested_stage_lines :: "stage list \<Rightarrow> error + string list"
where
  "convert_single_stage (Stage regex json lbls out template mtch metrics) =
     (case mtch of Some m \<Rightarrow> convert_match_stage m | None \<Rightarrow>
     (case regex of Some r \<Rightarrow> convert_regex_stage r | None \<Rightarrow>
     (case json of Some j \<Rightarrow> convert_json_stage j | None \<Rightarrow>
     (case lbls of Some l \<Rightarrow> convert_labels_stage l | None \<Rightarrow>
     (case metrics of Some x \<Rightarrow> Inr (convert_metrics_stage x) | None \<Rightarrow>
     (case template of Some t \<Rightarrow> convert_template_stage t | None \<Rightarrow>
     (case out of Some ou \<Rightarrow> convert_output_stage ou | None \<Rightarrow>
      Inr [])))))))"
| "convert_match_stage (Match sel pname act stgs) =
     (case stgs of
        None \<Rightarrow> Inr (join nl ([''match {''] @ match_header (Match sel pname act stgs) @ [''}'']))
      | Some nested \<Rightarrow>
          (case nested_stage_lines nested of
             Inl e \<Rightarrow> Inl e
           | Inr nested_stages \<Rightarrow>
               Inr (join nl ([''match {''] @ match_header (Match sel pname act stgs)
                             @ (if nested_stages \<noteq> []
                                then [''  stage {''] @ nested_stages @ [''  }''] else [])
                             @ [''}'']))))"
| "nested_stage_lines [] = Inr []"
| "nested_stage_lines (stage # rest) =
     (case convert_single_stage stage of
        Inl e \<Rightarrow> Inl e
      | Inr nested_stage \<Rightarrow>
          (case nested_stage_lines rest of
             Inl e \<Rightarrow> Inl e
           | Inr others \<Rightarrow>
               Inr (if nested_stage \<noteq> [] then (''    stage.'' @ nested_stage) # others
                    else others)))"

text \<open>The loop of \<^verbatim>\<open>_convert_pipeline_stages\<close> and the joined result.\<close>

fun inline_stage_list :: "stage list \<Rightarrow> error + string list" where
  "inline_stage_list [] = Inr []"
| "inline_stage_list (stage # rest) =
     ebind (convert_single_stage stage) (\<lambda>stage_str.
     ebind (inline_stage_list rest) (\<lambda>alloy_stages.
     Inr (if stage_str \<noteq> [] then stage_str # alloy_stages else alloy_stages)))"

definition convert_pipeline_stages :: "stage list \<Rightarrow> error + string" where
  "convert_pipeline_stages stages =
     (if stages = [] then Inr []
      else ebind (inline_stage_list stages) (\<lambda>alloy_stages.
           Inr (if alloy_stages \<noteq> [] then ''stage.'' @ join '' | stage.'' alloy_stages else [])))"

subsection \<open>\<^verbatim>\<open>_convert_relabel_configs\<close>\<close>

definition convert_relabel_rule :: "dict \<Rightarrow> pv" where
  "convert_relabel_rule c =
     PDict (concat (map (\<lambda>k. case map_of c k of Some v \<Rightarrow> [(k, v)] | None \<Rightarrow> [])
                        [''source_labels'', ''target_label'', ''regex'', ''replacement'', ''action'']))"

definition convert_relabel_configs :: "dict list \<Rightarrow> pv list" where
  "convert_relabel_configs cs = map convert_relabel_rule cs"

section \<open>The component graph builder\<close>

text \<open>
  The builder's state is the list \<^verbatim>\<open>self.alloy_components\<close>; every method takes the
  list and returns it with the components it appended, or the exception it raised.
  \<^verbatim>\<open>_get_component_id\<close> is the one user of \<^verbatim>\<open>self.component_counter\<close>; no method
  of the class calls it.
\<close>

definition get_component_id :: "(string \<rightharpoonup> nat) \<Rightarrow> string \<Rightarrow> string \<times> (string \<rightharpoonup> nat)" where
  "get_component_id component_counter component_type =
     (let n = (case component_counter component_type of None \<Rightarrow> 0 | Some c \<Rightarrow> c) + 1
      in (component_type @ ''_'' @ str_nat n, component_counter(component_type \<mapsto> n)))"

subsection \<open>\<^verbatim>\<open>_process_clients\<close>\<close>

definition client_id :: "nat \<Rightarrow> string" where
  "client_id idx = (if idx = 0 then ''default'' else ''client_'' @ str_nat idx)"

definition client_component :: "nat \<Rightarrow> client \<Rightarrow> error + component" where
  "client_component idx c =
     (case url c of
        None \<Rightarrow> Inl (KeyError ''url'')
      | Some u \<Rightarrow>
          (case basic_auth c of
             None \<Rightarrow>
               Inr \<lparr>ctype = ''loki.write'', cid = client_id idx,
                    config = [(''endpoint'', PDict [(''url'', u)]),
                              (''external_labels'', PDict [])]\<rparr>
           | Some ba \<Rightarrow>
               ebind (pv_get ba ''username'' (PStr [])) (\<lambda>username.
               ebind (pv_get ba ''password'' (PStr [])) (\<lambda>password.
               Inr \<lparr>ctype = ''loki.write'', cid = client_id idx,
                    config = [(''endpoint'',
                                 PDict [(''url'', u),
                                        (''basic_auth'', PDict [(''username'', username),
                                                                (''password'', password)])]),
                              (''external_labels'', PDict [])]\<rparr>))))"

fun clients_loop :: "nat \<Rightarrow> client list \<Rightarrow> component list \<Rightarrow> error + component list" where
  "clients_loop idx [] comps = Inr comps"
| "clients_loop idx (c # cs) comps =
     ebind (client_component idx c) (\<lambda>component.
     clients_loop (Suc idx) cs (comps @ [component]))"

definition process_clients :: "promtail_config \<Rightarrow> component list \<Rightarrow> error + component list" where
  "process_clients cfg comps =
     clients_loop 0 (case clients cfg of None \<Rightarrow> [] | Some cs \<Rightarrow> cs) comps"

subsection \<open>\<^verbatim>\<open>_process_static_configs\<close>\<close>

definition file_match_id :: "string \<Rightarrow> nat \<Rightarrow> string" where
  "file_match_id name idx = (if idx > 0 then name @ ''_'' @ str_nat idx else name)"

definition path_target :: "dict \<Rightarrow> pv \<Rightarrow> pv" where
  "path_target lbls target = PDict (dict_update [(''__address__'', target)] lbls)"

definition file_match_component :: "string \<Rightarrow> nat \<Rightarrow> static_config \<Rightarrow> component" where
  "file_match_component name idx sc =
     \<lparr>ctype = ''local.file_match'', cid = file_match_id name idx,
      config = [(''path_targets'',
                 PList (map (path_target (case labels sc of None \<Rightarrow> [] | Some l \<Rightarrow> l))
                            (case targets sc of None \<Rightarrow> [] | Some ts \<Rightarrow> ts)))]\<rparr>"

text \<open>The source component of an entry; \<open>stages\<close> is the inline text of the job's
  pipeline stages, and the key is there when the text is not empty.\<close>

definition source_file_component :: "string \<Rightarrow> nat \<Rightarrow> string \<Rightarrow> component" where
  "source_file_component name idx stages =
     \<lparr>ctype = ''loki.source.file'', cid = file_match_id name idx,
      config = [(''targets'', PStr (''local.file_match.'' @ file_match_id name idx @ ''.targets'')),
                (''forward_to'', PList [PStr ''loki.write.default.receiver''])]
               @ (if stages \<noteq> [] then [(''stages'', PStr stages)] else [])\<rparr>"

fun static_loop ::
  "scrape_config \<Rightarrow> string \<Rightarrow> nat \<Rightarrow> static_config list \<Rightarrow> component list \<Rightarrow> error + component list"
where
  "static_loop cfg name idx [] comps = Inr comps"
| "static_loop cfg name idx (sc # scs) comps =
     ebind (case pipeline_stages cfg of
              Some ps \<Rightarrow> convert_pipeline_stages ps
            | None \<Rightarrow> Inr []) (\<lambda>stages.
     static_loop cfg name (Suc idx) scs
       (comps @ [file_match_component name idx sc, source_file_component name idx stages]))"

definition process_static_configs ::
  "scrape_config \<Rightarrow> string \<Rightarrow> component list \<Rightarrow> error + component list" where
  "process_static_configs cfg name comps =
     static_loop cfg name 0 (case static_configs cfg of None \<Rightarrow> [] | Some scs \<Rightarrow> scs) comps"

subsection \<open>\<^verbatim>\<open>_process_journal_config\<close>\<close>

definition needs_process :: "scrape_config \<Rightarrow> bool" where
  "needs_process cfg = (case pipeline_stages cfg of Some ps \<Rightarrow> ps \<noteq> [] | None \<Rightarrow> False)"

definition journal_forward_to :: "scrape_config \<Rightarrow> string \<Rightarrow> string" where
  "journal_forward_to cfg name =
     (if needs_process cfg then ''loki.process.'' @ name @ ''.receiver''
      else ''loki.write.default.receiver'')"

text \<open>The relabel rules of a job, empty when the job has no \<^verbatim>\<open>relabel_configs\<close>.\<close>

definition relabel_rules :: "scrape_config \<Rightarrow> pv list" where
  "relabel_rules cfg =
     (case relabel_configs cfg of Some rs \<Rightarrow> convert_relabel_configs rs | None \<Rightarrow> [])"

definition relabel_component :: "scrape_config \<Rightarrow> string \<Rightarrow> component" where
  "relabel_component cfg name =
     \<lparr>ctype = ''loki.relabel'', cid = name @ ''_relabel'',
      config = [(''forward_to'', PList [PStr (journal_forward_to cfg name)]),
                (''_rules'', PList (relabel_rules cfg))]\<rparr>"

definition journal_component :: "scrape_config \<Rightarrow> string \<Rightarrow> component" where
  "journal_component cfg name =
     (let journal_cfg = (case journal cfg of Some j \<Rightarrow> j
                         | None \<Rightarrow> \<lparr>max_age = None, journal_labels = None\<rparr>);
          c0 = [(''forward_to'', PList [PStr (journal_forward_to cfg name)])];
          c1 = (case max_age journal_cfg of Some a \<Rightarrow> dict_set ''max_age'' a c0 | None \<Rightarrow> c0);
          c2 = (case journal_labels journal_cfg of Some l \<Rightarrow> dict_set ''labels'' l c1 | None \<Rightarrow> c1);
          c3 = (if relabel_rules cfg \<noteq> []
                then dict_set ''forward_to''
                       (PList [PStr (''loki.relabel.'' @ name @ ''_relabel.receiver'')]) c2
                else c2)
      in \<lparr>ctype = ''loki.source.journal'', cid = name, config = c3\<rparr>)"

definition process_component :: "string \<Rightarrow> pv list \<Rightarrow> component" where
  "process_component name stages =
     \<lparr>ctype = ''loki.process'', cid = name,
      config = [(''forward_to'', PList [PStr ''loki.write.default.receiver'']),
                (''stages'', PList stages)]\<rparr>"

definition process_journal_config ::
  "scrape_config \<Rightarrow> string \<Rightarrow> component list \<Rightarrow> error + component list" where
  "process_journal_config cfg name comps =
     (let comps1 = (if relabel_rules cfg \<noteq> [] then comps @ [relabel_component cfg name] else comps);
          comps2 = comps1 @ [journal_component cfg name]
      in if needs_process cfg then
           ebind (convert_pipeline_stages_for_process
                    (case pipeline_stages cfg of Some ps \<Rightarrow> ps | None \<Rightarrow> [])) (\<lambda>stages.
           Inr (comps2 @ [process_component name stages]))
         else Inr comps2)"

subsection \<open>\<^verbatim>\<open>_process_scrape_configs\<close>\<close>

definition scrape_job_name :: "scrape_config \<Rightarrow> string" where
  "scrape_job_name cfg = (case job_name cfg of Some n \<Rightarrow> n | None \<Rightarrow> ''unknown'')"

definition process_scrape_config :: "scrape_config \<Rightarrow> component list \<Rightarrow> error + component list" where
  "process_scrape_config cfg comps =
     ebind (if static_configs cfg \<noteq> None
            then process_static_configs cfg (scrape_job_name cfg) comps
            else Inr comps) (\<lambda>comps1.
     if journal cfg \<noteq> None
     then process_journal_config cfg (scrape_job_name cfg) comps1
     else Inr comps1)"

fun scrape_loop :: "scrape_config list \<Rightarrow> component list \<Rightarrow> error + component list" where
  "scrape_loop [] comps = Inr comps"
| "scrape_loop (cfg # cfgs) comps =
     ebind (process_scrape_config cfg comps) (\<lambda>comps1. scrape_loop cfgs comps1)"

definition process_scrape_configs ::
  "promtail_config \<Rightarrow> component list \<Rightarrow> error + component list" where
  "process_scrape_configs cfg comps =
     scrape_loop (case scrape_configs cfg of None \<Rightarrow> [] | Some cs \<Rightarrow> cs) comps"

section \<open>The config emitter\<close>

text \<open>The value under \<^verbatim>\<open>_rules\<close> is iterated and every element asked for its items:
  a list of dicts gives the rule blocks, and what is iterated otherwise follows Python
  (the keys of a dict, the characters of a str).\<close>

fun pv_iter :: "pv \<Rightarrow> error + pv list" where
  "pv_iter (PList xs) = Inr xs"
| "pv_iter (PDict d) = Inr (map (\<lambda>(k, v). PStr k) d)"
| "pv_iter (PStr s) = Inr (map (\<lambda>c. PStr [c]) s)"
| "pv_iter _ = Inl TypeError"

fun format_rules :: "pv list \<Rightarrow> error + string list" where
  "format_rules [] = Inr []"
| "format_rules (rule # rules) =
     ebind (pv_items rule) (\<lambda>items.
     ebind (format_rules rules) (\<lambda>rest.
     Inr ([''  rule {'']
          @ map (\<lambda>(k, v). ''    '' @ k @ '' = '' @ json_dumps v) items
          @ [''  }'', []] @ rest)))"

fun format_config :: "dict \<Rightarrow> error + string list" where
  "format_config [] = Inr []"
| "format_config ((key, v) # rest) =
     ebind (if key = ''_rules'' then ebind (pv_iter v) format_rules
            else Inr (format_config_value key v 2)) (\<lambda>ls.
     ebind (format_config rest) (\<lambda>more_lines. Inr (ls @ more_lines)))"

definition format_component :: "component \<Rightarrow> error + string list" where
  "format_component c =
     ebind (format_config (config c)) (\<lambda>body.
     Inr ([ctype c @ '' '' @ [dq] @ cid c @ [dq] @ '' {''] @ body @ [''}'']))"

fun config_lines :: "component list \<Rightarrow> error + string list" where
  "config_lines [] = Inr []"
| "config_lines (c # cs) =
     ebind (format_component c) (\<lambda>ls.
     ebind (config_lines cs) (\<lambda>rest. Inr (ls @ [[]] @ rest)))"

definition generate_alloy_config :: "component list \<Rightarrow> error + string" where
  "generate_alloy_config comps = ebind (config_lines comps) (\<lambda>ls. Inr (join nl ls))"

text \<open>\<^verbatim>\<open>migrate\<close> on a fresh migrator: the component list starts empty.\<close>

definition build :: "promtail_config \<Rightarrow> error + component list" where
  "build cfg = ebind (process_clients cfg []) (process_scrape_configs cfg)"

definition migrate :: "promtail_config \<Rightarrow> error + string" where
  "migrate cfg = ebind (build cfg) generate_alloy_config"

section \<open>Predicates of the statements\<close>

text \<open>A sink the builder accepts: it has a URL, and its \<^verbatim>\<open>basic_auth\<close>, when there
  is one, is a dict.\<close>

definition client_ok :: "client \<Rightarrow> bool" where
  "client_ok c = (url c \<noteq> None \<and> (case basic_auth c of None \<Rightarrow> True | Some b \<Rightarrow> is_dict b))"

text \<open>The kind and the identifier of a component; an identifier that is a job name or
  a job name with an underscore suffix; the number that a string of decimal digits
  stands for.\<close>

definition comp_key :: "component \<Rightarrow> string \<times> string" where
  "comp_key c = (ctype c, cid c)"

definition owned :: "string \<Rightarrow> string \<Rightarrow> bool" where
  "owned name i = (i = name \<or> startswith i (name @ ''_''))"

definition digits_val :: "string \<Rightarrow> nat" where
  "digits_val s = foldl (\<lambda>a c. 10 * a + (of_char c - 48)) 0 s"

text \<open>A stage whose one recognised key is \<^verbatim>\<open>metrics\<close>.\<close>

definition is_metrics_stage :: "stage \<Rightarrow> bool" where
  "is_metrics_stage s =
     (st_metrics s \<noteq> None \<and> st_regex s = None \<and> st_json s = None \<and> st_labels s = None
      \<and> st_output s = None \<and> st_template s = None \<and> st_match s = None)"

text \<open>The pipeline stages of a job translate without an exception: in the inline mode
  of the file sources, and in the structured mode of the processing component.\<close>

definition inline_stages_ok :: "scrape_config \<Rightarrow> bool" where
  "inline_stages_ok cfg =
     (case pipeline_stages cfg of None \<Rightarrow> True
      | Some ps \<Rightarrow> (case convert_pipeline_stages ps of Inr s \<Rightarrow> True | Inl e \<Rightarrow> False))"

definition process_stages_ok :: "scrape_config \<Rightarrow> bool" where
  "process_stages_ok cfg =
     (case pipeline_stages cfg of None \<Rightarrow> True
      | Some ps \<Rightarrow> (case convert_pipeline_stages_for_process ps of Inr s \<Rightarrow> True | Inl e \<Rightarrow> False))"

section \<open>Nested match steps\<close>

text \<open>
  The depth that the nested steps of a match step reach, in the words of the
  specification: a match without nested steps has depth 0, and a level of nested steps
  adds one to the deepest of them.
\<close>

fun stage_depth :: "stage \<Rightarrow> nat"
and match_depth :: "match_cfg \<Rightarrow> nat"
and stages_depth :: "stage list \<Rightarrow> nat"
where
  "stage_depth (Stage regex json lbls out template mtch metrics) =
     (case mtch of Some m \<Rightarrow> match_depth m | None \<Rightarrow> 0)"
| "match_depth (Match sel pname act stgs) =
     (case stgs of None \<Rightarrow> 0 | Some nested \<Rightarrow> if nested = [] then 0 else 1 + stages_depth nested)"
| "stages_depth [] = 0"
| "stages_depth (s # ss) = max (stage_depth s) (stages_depth ss)"

text \<open>
  A chain of match steps, each with its three optional fields and one nested step, the
  innermost around \<open>leaf\<close>; and the text expected for it: one \<^verbatim>\<open>stage { ... }\<close> block
  per level, around the text of the level below.
\<close>

fun match_chain :: "(pv option \<times> pv option \<times> pv option) list \<Rightarrow> stage \<Rightarrow> stage" where
  "match_chain [] leaf = leaf"
| "match_chain ((sel, pname, act) # hs) leaf =
     Stage None None None None None (Some (Match sel pname act (Some [match_chain hs leaf]))) None"

fun nested_blocks :: "(pv option \<times> pv option \<times> pv option) list \<Rightarrow> string \<Rightarrow> string" where
  "nested_blocks [] t = t"
| "nested_blocks ((sel, pname, act) # hs) t =
     join nl ([''match {'']
              @ (case sel of Some s \<Rightarrow> [''  selector = '' @ json_dumps s] | None \<Rightarrow> [])
              @ (case pname of Some p \<Rightarrow> [''  pipeline_name = '' @ json_dumps p] | None \<Rightarrow> [])
              @ (case act of Some a \<Rightarrow> [''  action = '' @ [dq] @ py_str a @ [dq]] | None \<Rightarrow> [])
              @ [''  stage {'', ''    stage.'' @ nested_blocks hs t, ''  }'', ''}''])"

text \<open>
  The lines expected for one match step, given its three optional fields and the inline
  translations \<open>ts\<close> of its nested steps in step order: the opening line, one line for
  each field the match has, the block of the nested steps, the closing brace. The block
  is there when some translation is not empty, and holds one line per non-empty
  translation, in order.
\<close>

definition stage_block :: "string list \<Rightarrow> string list" where
  "stage_block ts =
     (if \<exists>t \<in> set ts. t \<noteq> []
      then [''  stage {''] @ map (\<lambda>t. ''    stage.'' @ t) (filter (\<lambda>t. t \<noteq> []) ts) @ [''  }'']
      else [])"

definition match_parts :: "pv option \<Rightarrow> pv option \<Rightarrow> pv option \<Rightarrow> string list \<Rightarrow> string list" where
  "match_parts sel pname act ts =
     [''match {'']
     @ (case sel of Some s \<Rightarrow> [''  selector = '' @ json_dumps s] | None \<Rightarrow> [])
     @ (case pname of Some p \<Rightarrow> [''  pipeline_name = '' @ json_dumps p] | None \<Rightarrow> [])
     @ (case act of Some a \<Rightarrow> [''  action = '' @ [dq] @ py_str a @ [dq]] | None \<Rightarrow> [])
     @ stage_block ts
     @ [''}'']"

section \<open>Example documents\<close>

definition app_job :: scrape_config where
  "app_job = \<lparr>job_name = Some ''app'',
      static_configs = Some [\<lparr>targets = Some [PStr ''localhost:9080''],
                               labels = Some [(''env'', PStr ''prod'')]\<rparr>,
                             \<lparr>targets = Some [PStr ''localhost:9081''], labels = None\<rparr>],
      journal = None, pipeline_stages = None, relabel_configs = None\<rparr>"

definition regex_stage :: stage where
  "regex_stage = Stage (Some (PDict [(''expression'', PStr ''level=(.*)'')])) None None None None None None"

definition journal_job :: scrape_config where
  "journal_job = \<lparr>job_name = Some ''journal'', static_configs = None,
      journal = Some \<lparr>max_age = Some (PStr ''12h''),
                      journal_labels = Some (PDict [(''job'', PStr ''systemd-journal'')])\<rparr>,
      pipeline_stages = Some [regex_stage],
      relabel_configs = Some [[(''source_labels'', PList [PStr ''__journal__systemd_unit'']),
                               (''target_label'', PStr ''unit'')]]\<rparr>"

definition sink :: client where
  "sink = \<lparr>url = Some (PStr ''http://sink/loki/api/v1/push''), basic_auth = None\<rparr>"

definition journal_doc :: promtail_config where
  "journal_doc = \<lparr>clients = Some [sink], scrape_configs = Some [journal_job]\<rparr>"

definition mixed_job :: scrape_config where
  "mixed_job = \<lparr>job_name = Some ''sys'',
      static_configs = Some [\<lparr>targets = Some [PStr ''localhost''], labels = None\<rparr>],
      journal = Some \<lparr>max_age = None, journal_labels = None\<rparr>,
      pipeline_stages = None, relabel_configs = None\<rparr>"

definition metrics_stage :: stage where
  "metrics_stage = Stage None None None None None None
      (Some (PDict [(''log_lines_total'', PDict [(''type'', PStr ''Counter'')])]))"

definition unknown_stage :: stage where
  "unknown_stage = Stage None None None None None None None"

definition two_level_match :: stage where
  "two_level_match =
     match_chain [(Some (PStr ''{job=varlogs}''), None, Some (PStr ''keep'')), (None, None, None)]
       regex_stage"

definition three_step_match :: match_cfg where
  "three_step_match =
     Match (Some (PStr ''{job=varlogs}'')) None None
           (Some [regex_stage, unknown_stage, metrics_stage])"

definition broken_regex_stage :: stage where
  "broken_regex_stage = Stage (Some (PDict [])) None None None None None None"

definition three_job_doc :: promtail_config where
  "three_job_doc = \<lparr>clients = Some [sink], scrape_configs = Some [app_job, mixed_job, journal_job]\<rparr>"

definition unnamed_journal_job :: scrape_config where
  "unnamed_journal_job =
     \<lparr>job_name = None, static_configs = None,
      journal = Some \<lparr>max_age = None, journal_labels = None\<rparr>,
      pipeline_stages = None, relabel_configs = None\<rparr>"

definition unnamed_jobs_doc :: promtail_config where
  "unnamed_jobs_doc =
     \<lparr>clients = Some [sink], scrape_configs = Some [unnamed_journal_job, unnamed_journal_job]\<rparr>"

definition app_1_job :: scrape_config where
  "app_1_job =
     \<lparr>job_name = Some ''app_1'',
      static_configs = Some [\<lparr>targets = Some [PStr ''localhost:9082''], labels = None\<rparr>],
      journal = None, pipeline_stages = None, relabel_configs = None\<rparr>"

definition suffix_collision_doc :: promtail_config where
  "suffix_collision_doc = \<lparr>clients = Some [sink], scrape_configs = Some [app_job, app_1_job]\<rparr>"

section \<open>Basic facts\<close>

lemma ebind_Inr [simp]: "ebind (Inr x) f = f x"
  by (simp add: ebind_def)

lemma ebind_Inl [simp]: "ebind (Inl e) f = Inl e"
  by (simp add: ebind_def)

lemma ebind_eq_Inr: "ebind m f = Inr y \<longleftrightarrow> (\<exists>x. m = Inr x \<and> f x = Inr y)"
  by (cases m) simp_all

lemma ebind_Inr_right [simp]: "ebind m Inr = m"
  by (cases m) simp_all

lemma pv_get_eq_Inr:
  "pv_get v k d = Inr x \<longleftrightarrow> (\<exists>dd. v = PDict dd \<and> x = dict_get dd k d)"
  by (cases v) auto

lemma str_nat_1: "str_nat (Suc 0) = ''1''"
  by code_simp

section \<open>The formatter\<close>

text \<open>
  Claim C3, as stated, fails. A map of size one under \<^verbatim>\<open>labels\<close> is printed on three
  lines (the opening line, one line with the comma-joined items and a trailing comma, the
  closing brace), not as one line \<^verbatim>\<open>labels = { a = "x" }\<close>; and an empty map under
  another key is printed as \<^verbatim>\<open>endpoint = {}\<close>, not as \<^verbatim>\<open>endpoint {}\<close>.
\<close>

theorem labels_map_counterexample:
  "format_config_value ''labels'' (PDict [(''a'', PStr ''x'')]) 0
     = [''labels = {'', ''  a = '' @ [dq] @ ''x'' @ [dq] @ '','', ''}'']
   \<and> format_config_value ''labels'' (PDict [(''a'', PStr ''x'')]) 0
     \<noteq> [''labels = { a = '' @ [dq] @ ''x'' @ [dq] @ '' }'']
   \<and> format_config_value ''endpoint'' (PDict []) 0 = [''endpoint = {}'']
   \<and> format_config_value ''endpoint'' (PDict []) 0 \<noteq> [''endpoint {}'']"
  by (simp add: format_label_dict_def spaces_def json_string_def json_escape_char_def dq_def bs_def)

text \<open>
  Claim C3, amended. An empty map is printed as the one line \<^verbatim>\<open>key = {}\<close> under every
  key. A non-empty map under \<^verbatim>\<open>labels\<close> or \<^verbatim>\<open>external_labels\<close> is printed, whatever
  its size, on three lines: \<^verbatim>\<open>key = {\<close>, then all items \<^verbatim>\<open>k = <json of v>\<close> joined by
  a comma and a space on one line, indented by two more spaces and ended by a comma, then
  the closing brace. A non-empty map under any other key is printed as the block
  \<^verbatim>\<open>key {\<close>, the lines of its items formatted two spaces deeper, and the closing
  brace.
\<close>

theorem map_rendering:
  "format_config_value key (PDict []) indent = [replicate indent (CHR '' '') @ key @ '' = {}'']
   \<and> (d \<noteq> [] \<and> (key = ''labels'' \<or> key = ''external_labels'') \<longrightarrow>
        format_config_value key (PDict d) indent =
          [replicate indent (CHR '' '') @ key @ '' = {'',
           replicate indent (CHR '' '') @ ''  ''
             @ join '', '' (map (\<lambda>(k, v). k @ '' = '' @ json_dumps v) d) @ '','',
           replicate indent (CHR '' '') @ ''}''])
   \<and> (d \<noteq> [] \<and> key \<noteq> ''labels'' \<and> key \<noteq> ''external_labels'' \<longrightarrow>
        format_config_value key (PDict d) indent =
          [replicate indent (CHR '' '') @ key @ '' {'']
          @ concat (map (\<lambda>(k, v). format_config_value k v (indent + 2)) d)
          @ [replicate indent (CHR '' '') @ ''}''])"
  by (simp add: format_label_dict_def spaces_def)

theorem map_rendering_witness:
  "format_config_value ''labels''
      (PDict [(''a'', PStr ''x''), (''b'', PStr ''y''), (''c'', PInt 3)]) 2
     = [''  labels = {'',
        ''    a = '' @ [dq] @ ''x'' @ [dq] @ '', b = '' @ [dq] @ ''y'' @ [dq] @ '', c = 3,'',
        ''  }'']
   \<and> format_config_value ''endpoint'' (PDict [(''url'', PStr ''http://sink'')]) 2
     = [''  endpoint {'', ''    url = '' @ [dq] @ ''http://sink'' @ [dq], ''  }'']"
proof -
  have sp: "replicate 2 (CHR '' '') = ''  ''" by (simp add: numeral_2_eq_2)
  have js: "json_dumps (PStr ''x'') = [dq] @ ''x'' @ [dq]" "json_dumps (PStr ''y'') = [dq] @ ''y'' @ [dq]"
    "json_dumps (PInt 3) = ''3''"
    "json_dumps (PStr ''http://sink'') = [dq] @ ''http://sink'' @ [dq]"
    by code_simp+
  have ch: "format_config_value ''url'' (PStr ''http://sink'') 4
      = [''    url = '' @ [dq] @ ''http://sink'' @ [dq]]"
    by code_simp
  show ?thesis
    using map_rendering[of "''labels''" 2 "[(''a'', PStr ''x''), (''b'', PStr ''y''), (''c'', PInt 3)]"]
          map_rendering[of "''endpoint''" 2 "[(''url'', PStr ''http://sink'')]"]
    by (simp add: sp js ch del: json_dumps.simps format_config_value.simps)
qed

text \<open>
  Claim C8, as stated, fails on the empty list: under \<^verbatim>\<open>forward_to\<close> it is printed on
  two lines, since the test for a list of dicts comes first and holds for it.
\<close>

theorem forward_to_counterexample:
  "format_config_value ''forward_to'' (PList []) 2 = [''  forward_to = ['', ''  ]'']
   \<and> format_config_value ''forward_to'' (PList []) 2 \<noteq> [''  forward_to = []'']"
  by (simp add: format_dict_list_def spaces_def numeral_2_eq_2)

text \<open>
  Claim C8, amended. A list under \<^verbatim>\<open>forward_to\<close> with at least one element that is not
  a dict is printed on one line, \<^verbatim>\<open>forward_to = [...]\<close>, its elements joined by a comma
  and a space: a str that begins with \<^verbatim>\<open>loki.\<close> or \<^verbatim>\<open>prometheus.\<close> as it is, every
  other str as a JSON string in double quotes, every other element as its JSON text.
\<close>

theorem forward_to_rendering:
  assumes "\<not> list_all is_dict xs"
  shows "\<exists>refs. format_config_value ''forward_to'' (PList xs) indent
           = [replicate indent (CHR '' '') @ ''forward_to = ['' @ join '', '' refs @ '']'']
        \<and> length refs = length xs
        \<and> (\<forall>i < length xs. refs ! i =
              (case xs ! i of
                 PStr s \<Rightarrow> if startswith s ''loki.'' \<or> startswith s ''prometheus.'' then s
                           else [dq] @ concat (map json_escape_char s) @ [dq]
               | v \<Rightarrow> json_dumps v))"
proof (rule exI[of _ "map forward_ref xs"], intro conjI allI impI)
  show "format_config_value ''forward_to'' (PList xs) indent
           = [replicate indent (CHR '' '') @ ''forward_to = ['' @ join '', '' (map forward_ref xs) @ '']'']"
    using assms by (simp add: spaces_def)
  show "length (map forward_ref xs) = length xs" by simp
  fix i assume "i < length xs"
  then show "map forward_ref xs ! i =
              (case xs ! i of
                 PStr s \<Rightarrow> if startswith s ''loki.'' \<or> startswith s ''prometheus.'' then s
                           else [dq] @ concat (map json_escape_char s) @ [dq]
               | v \<Rightarrow> json_dumps v)"
    by (simp add: forward_ref_def json_string_def split: pv.splits)
qed

theorem forward_to_rendering_witness:
  "format_config_value ''forward_to''
      (PList [PStr ''loki.write.default.receiver'', PStr ''other'', PInt 7]) 2
     = [''  forward_to = [loki.write.default.receiver, '' @ [dq] @ ''other'' @ [dq] @ '', 7]'']"
proof -
  have a: "\<not> list_all is_dict [PStr ''loki.write.default.receiver'', PStr ''other'', PInt 7]"
    by (simp add: is_dict_def)
  obtain refs where r: "format_config_value ''forward_to''
      (PList [PStr ''loki.write.default.receiver'', PStr ''other'', PInt 7]) 2
           = [replicate 2 (CHR '' '') @ ''forward_to = ['' @ join '', '' refs @ '']'']"
     "length refs = length [PStr ''loki.write.default.receiver'', PStr ''other'', PInt 7]"
     "\<forall>i < length [PStr ''loki.write.default.receiver'', PStr ''other'', PInt 7]. refs ! i =
              (case [PStr ''loki.write.default.receiver'', PStr ''other'', PInt 7] ! i of
                 PStr s \<Rightarrow> if startswith s ''loki.'' \<or> startswith s ''prometheus.'' then s
                           else [dq] @ concat (map json_escape_char s) @ [dq]
               | v \<Rightarrow> json_dumps v)"
    using forward_to_rendering[OF a, of 2] by blast
  have int7: "json_dumps (PInt 7) = ''7''" by code_simp
  have "refs ! 0 = ''loki.write.default.receiver''"
    using r(3)[rule_format, of 0] by (simp add: startswith_def)
  moreover have "refs ! 1 = [dq] @ ''other'' @ [dq]"
    using r(3)[rule_format, of 1] by (simp add: startswith_def json_escape_char_def dq_def bs_def)
  moreover have "refs ! 2 = ''7''"
    using r(3)[rule_format, of 2] int7 by simp
  moreover obtain x y z where "refs = [x, y, z]"
    using r(2) by (metis (no_types) length_0_conv length_Suc_conv length_Cons list.size(3))
  ultimately show ?thesis using r(1) by (simp add: numeral_2_eq_2)
qed

section \<open>Pipeline stages\<close>

lemma process_stage_list_append:
  "process_stage_list (xs @ ys) =
     ebind (process_stage_list xs) (\<lambda>a. ebind (process_stage_list ys) (\<lambda>b. Inr (a @ b)))"
  by (induction xs) (auto simp: ebind_def split: sum.splits option.splits)

lemma inline_stage_list_append:
  "inline_stage_list (xs @ ys) =
     ebind (inline_stage_list xs) (\<lambda>a. ebind (inline_stage_list ys) (\<lambda>b. Inr (a @ b)))"
  by (induction xs) (auto simp: ebind_def split: sum.splits)

lemma metrics_to_dict:
  "is_metrics_stage m \<Longrightarrow> convert_stage_to_dict m = Inr None"
  by (auto simp: is_metrics_stage_def convert_stage_to_dict_def)

lemma metrics_inline:
  "is_metrics_stage m \<Longrightarrow>
     convert_single_stage m = Inr ''metrics { /* Metrics configuration requires manual review */ }''"
  by (cases m) (auto simp: is_metrics_stage_def convert_metrics_stage_def)

text \<open>
  Claim C4, as stated, fails. In the inline mode a metrics stage is not silent: it is
  translated to a placeholder text, which becomes part of the stage text of the source
  component.
\<close>

theorem metrics_inline_counterexample:
  "is_metrics_stage metrics_stage
   \<and> convert_pipeline_stages [metrics_stage]
       = Inr ''stage.metrics { /* Metrics configuration requires manual review */ }''
   \<and> convert_pipeline_stages [metrics_stage] \<noteq> Inr []"
  by (simp add: is_metrics_stage_def metrics_stage_def convert_pipeline_stages_def
        convert_metrics_stage_def)

text \<open>
  Claim C4, amended. In the structured mode a metrics stage gives no attribute tree, and
  the stages around it are translated as if it were not there. In the inline mode it
  gives the fixed placeholder \<^verbatim>\<open>metrics { /* Metrics configuration requires manual review */ }\<close>,
  between the translations of the stages around it. The migrator returns the text only:
  it keeps no record of the stages it skipped.
\<close>

theorem metrics_stage_handling:
  assumes "is_metrics_stage m"
  shows "convert_stage_to_dict m = Inr None
     \<and> convert_pipeline_stages_for_process (xs @ m # ys)
         = convert_pipeline_stages_for_process (xs @ ys)
     \<and> convert_single_stage m
         = Inr ''metrics { /* Metrics configuration requires manual review */ }''
     \<and> (\<forall>a b. inline_stage_list xs = Inr a \<and> inline_stage_list ys = Inr b \<longrightarrow>
           convert_pipeline_stages (xs @ m # ys)
             = Inr (''stage.'' @ join '' | stage.''
                      (a @ [''metrics { /* Metrics configuration requires manual review */ }''] @ b)))"
proof (intro conjI allI impI)
  show "convert_stage_to_dict m = Inr None" using assms by (rule metrics_to_dict)
  show "convert_single_stage m
         = Inr ''metrics { /* Metrics configuration requires manual review */ }''"
    using assms by (rule metrics_inline)
  have one: "process_stage_list [m] = Inr []"
    using metrics_to_dict[OF assms] by simp
  have "process_stage_list (xs @ [m] @ ys) = process_stage_list (xs @ ys)"
    unfolding process_stage_list_append[of xs "[m] @ ys"] process_stage_list_append[of "[m]" ys]
      process_stage_list_append[of xs ys] one by simp
  moreover have "xs @ ys = [] \<Longrightarrow> process_stage_list (xs @ m # ys) = Inr []"
    using one by simp
  ultimately show "convert_pipeline_stages_for_process (xs @ m # ys)
         = convert_pipeline_stages_for_process (xs @ ys)"
    by (simp add: convert_pipeline_stages_for_process_def)
next
  fix a b assume ab: "inline_stage_list xs = Inr a \<and> inline_stage_list ys = Inr b"
  have one: "inline_stage_list [m]
       = Inr [''metrics { /* Metrics configuration requires manual review */ }'']"
    using metrics_inline[OF assms] by simp
  have "inline_stage_list (xs @ [m] @ ys)
       = Inr (a @ [''metrics { /* Metrics configuration requires manual review */ }''] @ b)"
    unfolding inline_stage_list_append[of xs "[m] @ ys"] inline_stage_list_append[of "[m]" ys] one
    using ab by simp
  then show "convert_pipeline_stages (xs @ m # ys)
             = Inr (''stage.'' @ join '' | stage.''
                      (a @ [''metrics { /* Metrics configuration requires manual review */ }''] @ b))"
    by (simp add: convert_pipeline_stages_def)
qed

theorem metrics_stage_handling_witness:
  "convert_pipeline_stages_for_process [regex_stage, metrics_stage, regex_stage]
     = convert_pipeline_stages_for_process [regex_stage, regex_stage]
   \<and> convert_pipeline_stages [regex_stage, metrics_stage, regex_stage]
     = Inr (''stage.regex { expression = '' @ [dq] @ ''level=(.*)'' @ [dq] @ '' }''
            @ '' | stage.metrics { /* Metrics configuration requires manual review */ }''
            @ '' | stage.regex { expression = '' @ [dq] @ ''level=(.*)'' @ [dq] @ '' }'')"
proof -
  have ms: "is_metrics_stage metrics_stage"
    by (simp add: is_metrics_stage_def metrics_stage_def)
  have one: "inline_stage_list [regex_stage]
      = Inr [''regex { expression = '' @ [dq] @ ''level=(.*)'' @ [dq] @ '' }'']"
    by code_simp
  note r = metrics_stage_handling[OF ms, of "[regex_stage]" "[regex_stage]"]
  have a: "convert_pipeline_stages_for_process [regex_stage, metrics_stage, regex_stage]
     = convert_pipeline_stages_for_process [regex_stage, regex_stage]"
    using conjunct1[OF conjunct2[OF r]] by simp
  have b: "convert_pipeline_stages ([regex_stage] @ metrics_stage # [regex_stage])
             = Inr (''stage.'' @ join '' | stage.''
                      ([''regex { expression = '' @ [dq] @ ''level=(.*)'' @ [dq] @ '' }'']
                       @ [''metrics { /* Metrics configuration requires manual review */ }'']
                       @ [''regex { expression = '' @ [dq] @ ''level=(.*)'' @ [dq] @ '' }'']))"
    using conjunct2[OF conjunct2[OF conjunct2[OF r]]] one by blast
  show ?thesis using a b by simp
qed

lemma join_Cons_nonempty: "x \<noteq> [] \<Longrightarrow> join sep (x # xs) \<noteq> []"
  by (cases xs) simp_all

lemma nested_blocks_nonempty: "t \<noteq> [] \<Longrightarrow> nested_blocks hs t \<noteq> []"
  by (cases hs) (auto simp: join_Cons_nonempty)

lemma match_chain_text:
  assumes "convert_single_stage leaf = Inr t" and "t \<noteq> []"
  shows "convert_single_stage (match_chain hs leaf) = Inr (nested_blocks hs t)"
proof (induction hs)
  case Nil
  then show ?case using assms by simp
next
  case (Cons h hs)
  obtain sel pname act where h: "h = (sel, pname, act)" by (cases h)
  show ?case
    using Cons.IH nested_blocks_nonempty[OF assms(2), of hs]
    by (simp add: h match_header_def)
qed

lemma match_header_selector:
  "(\<exists>l \<in> set (match_header m). startswith l ''  selector = '') \<longleftrightarrow> m_selector m \<noteq> None"
  by (cases "m_selector m"; cases "m_pipeline_name m"; cases "m_action m")
     (simp_all add: match_header_def startswith_def)

lemma match_header_pipeline_name:
  "(\<exists>l \<in> set (match_header m). startswith l ''  pipeline_name = '') \<longleftrightarrow> m_pipeline_name m \<noteq> None"
  by (cases "m_selector m"; cases "m_pipeline_name m"; cases "m_action m")
     (simp_all add: match_header_def startswith_def)

lemma match_header_action:
  "(\<exists>l \<in> set (match_header m). startswith l ''  action = '') \<longleftrightarrow> m_action m \<noteq> None"
  by (cases "m_selector m"; cases "m_pipeline_name m"; cases "m_action m")
     (simp_all add: match_header_def startswith_def)

lemma match_header_no_block: "''  stage {'' \<notin> set (match_header m)"
  by (cases "m_selector m"; cases "m_pipeline_name m"; cases "m_action m")
     (simp_all add: match_header_def)

lemma block_line_not_header:
  assumes "l = ''  stage {'' \<or> l = ''  }'' \<or> (\<exists>x. l = ''    stage.'' @ x)"
  shows "\<not> startswith l ''  selector = ''" "\<not> startswith l ''  pipeline_name = ''"
    "\<not> startswith l ''  action = ''"
  using assms by (auto simp: startswith_def)

lemma part_ends: "\<not> startswith ''match {'' ''  selector = ''" "\<not> startswith ''}'' ''  selector = ''"
     "\<not> startswith ''match {'' ''  pipeline_name = ''" "\<not> startswith ''}'' ''  pipeline_name = ''"
     "\<not> startswith ''match {'' ''  action = ''" "\<not> startswith ''}'' ''  action = ''"
    by (simp_all add: startswith_def)

lemma bex_parts:
  assumes "\<not> P a" "\<not> P z" "\<forall>l \<in> set blk. \<not> P l"
  shows "(\<exists>l \<in> set ([a] @ hdr @ blk @ [z]). P l) \<longleftrightarrow> (\<exists>l \<in> set hdr. P l)"
  using assms by auto

lemma mem_parts:
  assumes "x \<noteq> a" "x \<noteq> z" "x \<notin> set hdr"
  shows "x \<in> set ([a] @ hdr @ blk @ [z]) \<longleftrightarrow> x \<in> set blk"
  using assms by auto

lemma nested_stage_lines_all2:
  "list_all2 (\<lambda>s t. convert_single_stage s = Inr t) ss ts \<Longrightarrow>
     nested_stage_lines ss = Inr (map (\<lambda>t. ''    stage.'' @ t) (filter (\<lambda>t. t \<noteq> []) ts))"
  by (induction rule: list_all2_induct) simp_all

lemma nested_stage_lines_fail:
  "\<exists>s \<in> set ss. \<exists>e. convert_single_stage s = Inl e \<Longrightarrow> \<exists>e. nested_stage_lines ss = Inl e"
proof (induction ss)
  case Nil
  then show ?case by simp
next
  case (Cons a ss)
  show ?case
  proof (cases "convert_single_stage a")
    case (Inl e)
    then show ?thesis by simp
  next
    case (Inr t)
    then have "\<exists>s \<in> set ss. \<exists>e. convert_single_stage s = Inl e"
      using Cons.prems by auto
    then obtain e where "nested_stage_lines ss = Inl e" using Cons.IH by blast
    then show ?thesis using Inr by simp
  qed
qed

lemma match_parts_header:
  "match_parts sel pname act ts =
     [''match {''] @ match_header (Match sel pname act stgs) @ stage_block ts @ [''}'']"
  by (simp add: match_parts_def match_header_def)

lemma stage_block_Nil [simp]: "stage_block [] = []"
  by (simp add: stage_block_def)

lemma convert_match_stage_none:
  assumes "m_stages m = None"
  shows "convert_match_stage m =
     Inr (join nl (match_parts (m_selector m) (m_pipeline_name m) (m_action m) []))"
proof (cases m)
  case (Match sel pname act stgs)
  then have "stgs = None" using assms by simp
  then show ?thesis
    by (simp add: Match match_parts_header[where stgs = None])
qed

lemma convert_match_stage_some:
  assumes "m_stages m = Some ss" and "list_all2 (\<lambda>s t. convert_single_stage s = Inr t) ss ts"
  shows "convert_match_stage m =
     Inr (join nl (match_parts (m_selector m) (m_pipeline_name m) (m_action m) ts))"
proof (cases m)
  case (Match sel pname act stgs)
  then have st: "stgs = Some ss" using assms(1) by simp
  define ls where "ls = map (\<lambda>t. ''    stage.'' @ t) (filter (\<lambda>t. t \<noteq> []) ts)"
  have lines: "nested_stage_lines ss = Inr ls"
    unfolding ls_def by (rule nested_stage_lines_all2[OF assms(2)])
  have ne: "(ls \<noteq> []) = (\<exists>t \<in> set ts. t \<noteq> [])"
    by (simp add: ls_def filter_empty_conv)
  have blk: "stage_block ts = (if ls \<noteq> [] then [''  stage {''] @ ls @ [''  }''] else [])"
    unfolding ne by (simp add: stage_block_def ls_def)
  have parts: "match_parts sel pname act ts =
     [''match {''] @ match_header (Match sel pname act (Some ss)) @ stage_block ts @ [''}'']"
    by (rule match_parts_header)
  show ?thesis
    by (simp add: Match st lines parts blk)
qed

lemma convert_match_stage_fail:
  assumes "m_stages m = Some ss" and "\<exists>s \<in> set ss. \<exists>e. convert_single_stage s = Inl e"
  shows "\<exists>e. convert_match_stage m = Inl e"
proof (cases m)
  case (Match sel pname act stgs)
  obtain e where "nested_stage_lines ss = Inl e"
    using nested_stage_lines_fail[OF assms(2)] by blast
  then show ?thesis using assms(1) by (simp add: Match)
qed

lemma stage_block_lines:
  "\<forall>l \<in> set (stage_block ts). l = ''  stage {'' \<or> l = ''  }'' \<or> (\<exists>x. l = ''    stage.'' @ x)"
  by (auto simp: stage_block_def)

lemma stage_block_open: "''  stage {'' \<in> set (stage_block ts) \<longleftrightarrow> (\<exists>t \<in> set ts. t \<noteq> [])"
  by (simp add: stage_block_def)

lemma match_parts_fields:
  "(\<exists>l \<in> set (match_parts sel pname act ts). startswith l ''  selector = '') \<longleftrightarrow> sel \<noteq> None"
  "(\<exists>l \<in> set (match_parts sel pname act ts). startswith l ''  pipeline_name = '') \<longleftrightarrow> pname \<noteq> None"
  "(\<exists>l \<in> set (match_parts sel pname act ts). startswith l ''  action = '') \<longleftrightarrow> act \<noteq> None"
  "''  stage {'' \<in> set (match_parts sel pname act ts) \<longleftrightarrow> (\<exists>t \<in> set ts. t \<noteq> [])"
proof -
  let ?m = "Match sel pname act None"
  have shape: "l = ''  stage {'' \<or> l = ''  }'' \<or> (\<exists>x. l = ''    stage.'' @ x)"
    if "l \<in> set (stage_block ts)" for l
    using stage_block_lines that by (rule bspec)
  have nb: "\<forall>l \<in> set (stage_block ts). \<not> startswith l ''  selector = ''"
           "\<forall>l \<in> set (stage_block ts). \<not> startswith l ''  pipeline_name = ''"
           "\<forall>l \<in> set (stage_block ts). \<not> startswith l ''  action = ''"
  proof -
    show "\<forall>l \<in> set (stage_block ts). \<not> startswith l ''  selector = ''"
      by (intro ballI, rule block_line_not_header(1), rule shape)
    show "\<forall>l \<in> set (stage_block ts). \<not> startswith l ''  pipeline_name = ''"
      by (intro ballI, rule block_line_not_header(2), rule shape)
    show "\<forall>l \<in> set (stage_block ts). \<not> startswith l ''  action = ''"
      by (intro ballI, rule block_line_not_header(3), rule shape)
  qed
  have sel: "m_selector ?m = sel" "m_pipeline_name ?m = pname" "m_action ?m = act" by simp_all
  show "(\<exists>l \<in> set (match_parts sel pname act ts). startswith l ''  selector = '') \<longleftrightarrow> sel \<noteq> None"
    unfolding match_parts_header[where stgs = None]
      bex_parts[of "\<lambda>l. startswith l ''  selector = ''", OF part_ends(1,2) nb(1)]
    using match_header_selector[of ?m] by (simp only: sel)
  show "(\<exists>l \<in> set (match_parts sel pname act ts). startswith l ''  pipeline_name = '') \<longleftrightarrow> pname \<noteq> None"
    unfolding match_parts_header[where stgs = None]
      bex_parts[of "\<lambda>l. startswith l ''  pipeline_name = ''", OF part_ends(3,4) nb(2)]
    using match_header_pipeline_name[of ?m] by (simp only: sel)
  show "(\<exists>l \<in> set (match_parts sel pname act ts). startswith l ''  action = '') \<longleftrightarrow> act \<noteq> None"
    unfolding match_parts_header[where stgs = None]
      bex_parts[of "\<lambda>l. startswith l ''  action = ''", OF part_ends(5,6) nb(3)]
    using match_header_action[of ?m] by (simp only: sel)
  have ne: "''  stage {'' \<noteq> ''match {''" "''  stage {'' \<noteq> ''}''" by simp_all
  have "''  stage {'' \<in> set (match_parts sel pname act ts)
          \<longleftrightarrow> ''  stage {'' \<in> set (stage_block ts)"
    unfolding match_parts_header[where stgs = None]
    by (rule mem_parts[OF ne match_header_no_block])
  also have "\<dots> \<longleftrightarrow> (\<exists>t \<in> set ts. t \<noteq> [])" by (rule stage_block_open)
  finally show "''  stage {'' \<in> set (match_parts sel pname act ts) \<longleftrightarrow> (\<exists>t \<in> set ts. t \<noteq> [])" .
qed

text \<open>
  Claim C7, as stated, fails. A match step whose one nested step has no key the
  translator knows has nested steps of depth 1, and its text has no \<^verbatim>\<open>stage {\<close> block
  at all: a nested step with an empty translation is dropped, and the block is written
  only when a nested line is left.
\<close>

theorem match_depth_counterexample:
  "match_depth (Match None None None (Some [unknown_stage])) = 1
   \<and> convert_match_stage (Match None None None (Some [unknown_stage]))
       = Inr (join nl [''match {'', ''}''])
   \<and> \<not> is_substring ''stage {'' (join nl [''match {'', ''}''])"
proof (intro conjI)
  show "match_depth (Match None None None (Some [unknown_stage])) = 1"
    by (simp add: unknown_stage_def)
  show "convert_match_stage (Match None None None (Some [unknown_stage]))
       = Inr (join nl [''match {'', ''}''])"
    by (simp add: unknown_stage_def match_header_def)
  show "\<not> is_substring ''stage {'' (join nl [''match {'', ''}''])"
    by code_simp
qed

text \<open>
  Claim C7, amended. The inline text of a match step is, joined by newlines: the line
  \<^verbatim>\<open>match {\<close>; one line each for \<^verbatim>\<open>selector\<close>, \<^verbatim>\<open>pipeline_name\<close> and \<^verbatim>\<open>action\<close>,
  there if and only if the match has the field; a block \<^verbatim>\<open>stage {\<close> ... \<^verbatim>\<open>}\<close> that is
  there if and only if some nested step has a non-empty inline translation, and that
  holds one line \<^verbatim>\<open>stage.<translation>\<close> for every nested step with a non-empty
  translation, in step order; the closing brace. A nested step that raises makes the
  match raise. So a chain of D match levels around a step with a non-empty translation
  is written with D nested blocks.
\<close>

theorem match_stage_rendering:
  "(convert_single_stage leaf = Inr t \<and> t \<noteq> [] \<longrightarrow>
      convert_single_stage (match_chain hs leaf) = Inr (nested_blocks hs t))
   \<and> (m_stages m = None \<longrightarrow>
        convert_match_stage m =
          Inr (join nl (match_parts (m_selector m) (m_pipeline_name m) (m_action m) [])))
   \<and> (m_stages m = Some ss \<and> list_all2 (\<lambda>s t. convert_single_stage s = Inr t) ss ts \<longrightarrow>
        convert_match_stage m =
          Inr (join nl (match_parts (m_selector m) (m_pipeline_name m) (m_action m) ts)))
   \<and> (m_stages m = Some ss \<and> (\<exists>s \<in> set ss. \<exists>e. convert_single_stage s = Inl e) \<longrightarrow>
        (\<exists>e. convert_match_stage m = Inl e))
   \<and> ((\<exists>l \<in> set (match_parts sel pname act us). startswith l ''  selector = '') \<longleftrightarrow> sel \<noteq> None)
   \<and> ((\<exists>l \<in> set (match_parts sel pname act us). startswith l ''  pipeline_name = '')
         \<longleftrightarrow> pname \<noteq> None)
   \<and> ((\<exists>l \<in> set (match_parts sel pname act us). startswith l ''  action = '') \<longleftrightarrow> act \<noteq> None)
   \<and> (''  stage {'' \<in> set (match_parts sel pname act us) \<longleftrightarrow> (\<exists>t \<in> set us. t \<noteq> []))"
proof (intro conjI impI)
  assume "convert_single_stage leaf = Inr t \<and> t \<noteq> []"
  then show "convert_single_stage (match_chain hs leaf) = Inr (nested_blocks hs t)"
    by (intro match_chain_text) simp_all
next
  assume "m_stages m = None"
  then show "convert_match_stage m =
          Inr (join nl (match_parts (m_selector m) (m_pipeline_name m) (m_action m) []))"
    by (rule convert_match_stage_none)
next
  assume a: "m_stages m = Some ss \<and> list_all2 (\<lambda>s t. convert_single_stage s = Inr t) ss ts"
  show "convert_match_stage m =
          Inr (join nl (match_parts (m_selector m) (m_pipeline_name m) (m_action m) ts))"
    by (rule convert_match_stage_some[OF conjunct1[OF a] conjunct2[OF a]])
next
  assume a: "m_stages m = Some ss \<and> (\<exists>s \<in> set ss. \<exists>e. convert_single_stage s = Inl e)"
  show "\<exists>e. convert_match_stage m = Inl e"
    by (rule convert_match_stage_fail[OF conjunct1[OF a] conjunct2[OF a]])
qed (rule match_parts_fields)+

theorem match_stage_rendering_witness:
  "convert_single_stage two_level_match =
     Inr (join nl [''match {'',
                   ''  selector = '' @ [dq] @ ''{job=varlogs}'' @ [dq],
                   ''  action = '' @ [dq] @ ''keep'' @ [dq],
                   ''  stage {'',
                   ''    stage.match {'',
                   ''  stage {'',
                   ''    stage.regex { expression = '' @ [dq] @ ''level=(.*)'' @ [dq] @ '' }'',
                   ''  }'',
                   ''}'',
                   ''  }'',
                   ''}''])
   \<and> convert_match_stage three_step_match =
     Inr (join nl [''match {'',
                   ''  selector = '' @ [dq] @ ''{job=varlogs}'' @ [dq],
                   ''  stage {'',
                   ''    stage.regex { expression = '' @ [dq] @ ''level=(.*)'' @ [dq] @ '' }'',
                   ''    stage.metrics { /* Metrics configuration requires manual review */ }'',
                   ''  }'',
                   ''}''])
   \<and> convert_match_stage (Match None (Some (PStr ''p'')) None None) =
     Inr (join nl [''match {'', ''  pipeline_name = '' @ [dq] @ ''p'' @ [dq], ''}''])
   \<and> (\<exists>e. convert_match_stage (Match None None None (Some [broken_regex_stage])) = Inl e)"
proof -
  let ?rx = "''regex { expression = '' @ [dq] @ ''level=(.*)'' @ [dq] @ '' }''"
  let ?mx = "''metrics { /* Metrics configuration requires manual review */ }''"
  let ?hs = "[(Some (PStr ''{job=varlogs}''), None, Some (PStr ''keep'')), (None, None, None)]"
  have leaf: "convert_single_stage regex_stage = Inr ?rx \<and> ?rx \<noteq> []"
    by code_simp
  have blocks: "nested_blocks ?hs ?rx
     = join nl [''match {'',
                   ''  selector = '' @ [dq] @ ''{job=varlogs}'' @ [dq],
                   ''  action = '' @ [dq] @ ''keep'' @ [dq],
                   ''  stage {'',
                   ''    stage.match {'',
                   ''  stage {'',
                   ''    stage.regex { expression = '' @ [dq] @ ''level=(.*)'' @ [dq] @ '' }'',
                   ''  }'',
                   ''}'',
                   ''  }'',
                   ''}'']"
    by code_simp
  have a: "convert_single_stage two_level_match = Inr (nested_blocks ?hs ?rx)"
    unfolding two_level_match_def
    using conjunct1[OF match_stage_rendering[of regex_stage ?rx ?hs]] leaf by (rule mp)
  have each: "convert_single_stage regex_stage = Inr ?rx" "convert_single_stage unknown_stage = Inr []"
    "convert_single_stage metrics_stage = Inr ?mx"
    by code_simp+
  have all2: "m_stages three_step_match = Some [regex_stage, unknown_stage, metrics_stage]
      \<and> list_all2 (\<lambda>s t. convert_single_stage s = Inr t)
           [regex_stage, unknown_stage, metrics_stage] [?rx, [], ?mx]"
    using each by (simp add: three_step_match_def)
  have parts3: "match_parts (m_selector three_step_match) (m_pipeline_name three_step_match)
        (m_action three_step_match) [?rx, [], ?mx]
      = [''match {'',
                   ''  selector = '' @ [dq] @ ''{job=varlogs}'' @ [dq],
                   ''  stage {'',
                   ''    stage.regex { expression = '' @ [dq] @ ''level=(.*)'' @ [dq] @ '' }'',
                   ''    stage.metrics { /* Metrics configuration requires manual review */ }'',
                   ''  }'',
                   ''}'']"
    by code_simp
  have b: "convert_match_stage three_step_match =
      Inr (join nl (match_parts (m_selector three_step_match) (m_pipeline_name three_step_match)
        (m_action three_step_match) [?rx, [], ?mx]))"
    using conjunct1[OF conjunct2[OF conjunct2[OF match_stage_rendering[where m = three_step_match
        and ss = "[regex_stage, unknown_stage, metrics_stage]" and ts = "[?rx, [], ?mx]"]]]] all2
    by (rule mp)
  have partsn: "match_parts (m_selector (Match None (Some (PStr ''p'')) None None))
        (m_pipeline_name (Match None (Some (PStr ''p'')) None None))
        (m_action (Match None (Some (PStr ''p'')) None None)) []
      = [''match {'', ''  pipeline_name = '' @ [dq] @ ''p'' @ [dq], ''}'']"
    by code_simp
  have c: "convert_match_stage (Match None (Some (PStr ''p'')) None None) =
      Inr (join nl (match_parts (m_selector (Match None (Some (PStr ''p'')) None None))
        (m_pipeline_name (Match None (Some (PStr ''p'')) None None))
        (m_action (Match None (Some (PStr ''p'')) None None)) []))"
    using conjunct1[OF conjunct2[OF match_stage_rendering[where
        m = "Match None (Some (PStr ''p'')) None None"]]]
    by simp
  have bad: "convert_single_stage broken_regex_stage = Inl (KeyError ''expression'')"
    by code_simp
  have d: "\<exists>e. convert_match_stage (Match None None None (Some [broken_regex_stage])) = Inl e"
    using conjunct1[OF conjunct2[OF conjunct2[OF conjunct2[OF match_stage_rendering[where
        m = "Match None None None (Some [broken_regex_stage])" and ss = "[broken_regex_stage]"]]]]]
      bad
    by simp
  show ?thesis
    using a b c d unfolding blocks parts3 partsn by (intro conjI)
qed

section \<open>Sinks\<close>

lemma client_component_ok:
  assumes "client_ok c"
  shows "\<exists>k. client_component idx c = Inr k"
  using assms
  by (auto simp: client_ok_def client_component_def is_dict_def split: option.splits pv.splits)

lemma client_component_result:
  assumes "client_component i c = Inr k"
  shows "ctype k = ''loki.write''
         \<and> cid k = (if i = 0 then ''default'' else ''client_'' @ str_nat i)
         \<and> (\<forall>u. url c = Some u \<and> basic_auth c = None \<longrightarrow>
               config k = [(''endpoint'', PDict [(''url'', u)]), (''external_labels'', PDict [])])
         \<and> (\<forall>u b. url c = Some u \<and> basic_auth c = Some (PDict b) \<longrightarrow>
               config k =
                 [(''endpoint'',
                   PDict [(''url'', u),
                          (''basic_auth'', PDict [(''username'', dict_get b ''username'' (PStr [])),
                                                  (''password'', dict_get b ''password'' (PStr []))])]),
                  (''external_labels'', PDict [])])"
  using assms
  by (auto simp: client_component_def client_id_def ebind_eq_Inr pv_get_eq_Inr split: option.splits)

lemma clients_loop_ok:
  assumes "\<forall>c \<in> set cs. client_ok c"
  shows "\<exists>new. clients_loop idx cs comps = Inr (comps @ new) \<and> length new = length cs
           \<and> (\<forall>i < length cs. client_component (idx + i) (cs ! i) = Inr (new ! i))"
  using assms
proof (induction cs arbitrary: idx comps)
  case Nil
  then show ?case by simp
next
  case (Cons c cs)
  from Cons.prems obtain k where c: "client_component idx c = Inr k"
    using client_component_ok[of c idx] by auto
  from Cons.IH[of "Suc idx" "comps @ [k]"] Cons.prems
  obtain new where n: "clients_loop (Suc idx) cs (comps @ [k]) = Inr ((comps @ [k]) @ new)"
    "length new = length cs" "\<forall>i < length cs. client_component (Suc idx + i) (cs ! i) = Inr (new ! i)"
    by auto
  show ?case
  proof (intro exI[of _ "k # new"] conjI allI impI)
    show "clients_loop idx (c # cs) comps = Inr (comps @ k # new)" using c n(1) by simp
    show "length (k # new) = length (c # cs)" using n(2) by simp
    fix i assume "i < length (c # cs)"
    then show "client_component (idx + i) ((c # cs) ! i) = Inr ((k # new) ! i)"
      using c n(3) by (cases i) auto
  qed
qed

lemma clients_loop_fail:
  assumes "c \<in> set cs" "url c = None"
  shows "\<exists>e. clients_loop idx cs comps = Inl e"
  using assms
proof (induction cs arbitrary: idx comps)
  case Nil
  then show ?case by simp
next
  case (Cons a cs)
  show ?case
  proof (cases "client_component idx a")
    case (Inl e)
    then show ?thesis by simp
  next
    case (Inr k)
    then have "a \<noteq> c" using Cons.prems(2) by (auto simp: client_component_def)
    then have "c \<in> set cs" using Cons.prems(1) by simp
    from Cons.IH[OF this Cons.prems(2)] Inr show ?thesis by simp
  qed
qed

lemma clients_loop_keyerror:
  assumes "c \<in> set cs" "url c = None"
    and "\<forall>a \<in> set cs. case basic_auth a of None \<Rightarrow> True | Some b \<Rightarrow> is_dict b"
  shows "clients_loop idx cs comps = Inl (KeyError ''url'')"
  using assms
proof (induction cs arbitrary: idx comps)
  case Nil
  then show ?case by simp
next
  case (Cons a cs)
  show ?case
  proof (cases "url a")
    case None
    then show ?thesis by (simp add: client_component_def)
  next
    case (Some u)
    then have "a \<noteq> c" using Cons.prems(2) by auto
    then have in_cs: "c \<in> set cs" using Cons.prems(1) by simp
    have "client_ok a" using Some Cons.prems(3) by (simp add: client_ok_def)
    then obtain k where "client_component idx a = Inr k"
      using client_component_ok[of a idx] by auto
    then show ?thesis using Cons.IH[OF in_cs Cons.prems(2)] Cons.prems(3) by simp
  qed
qed

text \<open>
  Claim C6. When every sink of the document has a URL (and a dict as its
  \<^verbatim>\<open>basic_auth\<close>, if it has one), \<^verbatim>\<open>_process_clients\<close> builds one \<^verbatim>\<open>loki.write\<close>
  component per sink, in order: the first has the identifier \<^verbatim>\<open>default\<close>, the sink at
  index \<open>i > 0\<close> the identifier \<^verbatim>\<open>client_i\<close>, so two sinks give \<^verbatim>\<open>default\<close> and
  \<^verbatim>\<open>client_1\<close>. The endpoint attribute holds the URL, and the basic-auth pair as a
  nested \<^verbatim>\<open>basic_auth\<close> attribute (missing user name or password as the empty
  string) when the sink has one.
\<close>

theorem sink_identifiers:
  assumes "clients cfg = Some cs" and "\<forall>c \<in> set cs. client_ok c"
  shows "\<exists>comps. process_clients cfg [] = Inr comps \<and> length comps = length cs
     \<and> (\<forall>i < length cs.
           ctype (comps ! i) = ''loki.write''
         \<and> cid (comps ! i) = (if i = 0 then ''default'' else ''client_'' @ str_nat i)
         \<and> (\<forall>u. url (cs ! i) = Some u \<and> basic_auth (cs ! i) = None \<longrightarrow>
               config (comps ! i) = [(''endpoint'', PDict [(''url'', u)]), (''external_labels'', PDict [])])
         \<and> (\<forall>u b. url (cs ! i) = Some u \<and> basic_auth (cs ! i) = Some (PDict b) \<longrightarrow>
               config (comps ! i) =
                 [(''endpoint'',
                   PDict [(''url'', u),
                          (''basic_auth'', PDict [(''username'', dict_get b ''username'' (PStr [])),
                                                  (''password'', dict_get b ''password'' (PStr []))])]),
                  (''external_labels'', PDict [])]))
     \<and> (length cs = 2 \<longrightarrow> map cid comps = [''default'', ''client_1''])"
proof -
  obtain new where n: "clients_loop 0 cs [] = Inr ([] @ new)" "length new = length cs"
    "\<forall>i < length cs. client_component (0 + i) (cs ! i) = Inr (new ! i)"
    using clients_loop_ok[OF assms(2), of 0 "[]"] by blast
  have pc: "process_clients cfg [] = Inr new"
    using assms(1) n(1) by (simp add: process_clients_def)
  have each: "ctype (new ! i) = ''loki.write''
         \<and> cid (new ! i) = (if i = 0 then ''default'' else ''client_'' @ str_nat i)
         \<and> (\<forall>u. url (cs ! i) = Some u \<and> basic_auth (cs ! i) = None \<longrightarrow>
               config (new ! i) = [(''endpoint'', PDict [(''url'', u)]), (''external_labels'', PDict [])])
         \<and> (\<forall>u b. url (cs ! i) = Some u \<and> basic_auth (cs ! i) = Some (PDict b) \<longrightarrow>
               config (new ! i) =
                 [(''endpoint'',
                   PDict [(''url'', u),
                          (''basic_auth'', PDict [(''username'', dict_get b ''username'' (PStr [])),
                                                  (''password'', dict_get b ''password'' (PStr []))])]),
                  (''external_labels'', PDict [])])" if "i < length cs" for i
  proof -
    have "client_component i (cs ! i) = Inr (new ! i)" using n(3) that by simp
    then show ?thesis by (rule client_component_result)
  qed
  have two: "map cid new = [''default'', ''client_1'']" if "length cs = 2"
  proof -
    have l: "length new = 2" using n(2) that by simp
    then obtain a b where ab: "new = [a, b]"
      by (metis (no_types) length_0_conv length_Suc_conv numeral_2_eq_2)
    have "cid (new ! 0) = ''default''" "cid (new ! 1) = ''client_'' @ str_nat 1"
      using each[of 0] each[of 1] that by simp_all
    then show ?thesis using ab by (simp add: str_nat_1)
  qed
  show ?thesis
  proof (rule exI[of _ new], intro conjI)
    show "process_clients cfg [] = Inr new" by (rule pc)
    show "length new = length cs" by (rule n(2))
    show "length cs = 2 \<longrightarrow> map cid new = [''default'', ''client_1'']" using two by blast
  qed (intro allI impI, rule each)
qed

theorem sink_identifiers_witness:
  "\<exists>comps. process_clients
      \<lparr>clients = Some [\<lparr>url = Some (PStr ''http://a/push''), basic_auth = None\<rparr>,
                       \<lparr>url = Some (PStr ''http://b/push''),
                        basic_auth = Some (PDict [(''username'', PStr ''u'')])\<rparr>],
       scrape_configs = None\<rparr> [] = Inr comps
     \<and> map cid comps = [''default'', ''client_1'']
     \<and> config (comps ! 1) =
          [(''endpoint'',
            PDict [(''url'', PStr ''http://b/push''),
                   (''basic_auth'', PDict [(''username'', PStr ''u''), (''password'', PStr [])])]),
           (''external_labels'', PDict [])]"
  using sink_identifiers[of
      "\<lparr>clients = Some [\<lparr>url = Some (PStr ''http://a/push''), basic_auth = None\<rparr>,
                       \<lparr>url = Some (PStr ''http://b/push''),
                        basic_auth = Some (PDict [(''username'', PStr ''u'')])\<rparr>],
       scrape_configs = None\<rparr>"
      "[\<lparr>url = Some (PStr ''http://a/push''), basic_auth = None\<rparr>,
                       \<lparr>url = Some (PStr ''http://b/push''),
                        basic_auth = Some (PDict [(''username'', PStr ''u'')])\<rparr>]"]
  by (auto simp: client_ok_def is_dict_def dict_get_def)

text \<open>
  Claim C9. A sink without a URL makes \<^verbatim>\<open>migrate\<close> raise: the result is an error and
  no text. The error is the KeyError of the key \<^verbatim>\<open>url\<close> when no sink before it fails
  on its \<^verbatim>\<open>basic_auth\<close>.
\<close>

theorem missing_url_aborts:
  assumes "clients cfg = Some cs" and "c \<in> set cs" and "url c = None"
  shows "(\<exists>e. migrate cfg = Inl e)
       \<and> ((\<forall>a \<in> set cs. case basic_auth a of None \<Rightarrow> True | Some b \<Rightarrow> is_dict b)
            \<longrightarrow> migrate cfg = Inl (KeyError ''url''))"
proof -
  have pc: "process_clients cfg [] = clients_loop 0 cs []"
    using assms(1) by (simp add: process_clients_def)
  obtain e where "clients_loop 0 cs [] = Inl e"
    using clients_loop_fail[OF assms(2,3)] by blast
  then have "migrate cfg = Inl e" by (simp add: migrate_def build_def pc)
  moreover have "migrate cfg = Inl (KeyError ''url'')"
    if "\<forall>a \<in> set cs. case basic_auth a of None \<Rightarrow> True | Some b \<Rightarrow> is_dict b"
    using clients_loop_keyerror[OF assms(2,3) that] by (simp add: migrate_def build_def pc)
  ultimately show ?thesis by blast
qed

theorem missing_url_aborts_witness:
  "migrate \<lparr>clients = Some [\<lparr>url = Some (PStr ''http://sink/push''), basic_auth = None\<rparr>,
                              \<lparr>url = None, basic_auth = None\<rparr>],
            scrape_configs = None\<rparr> = Inl (KeyError ''url'')"
  using missing_url_aborts[of
      "\<lparr>clients = Some [\<lparr>url = Some (PStr ''http://sink/push''), basic_auth = None\<rparr>,
                              \<lparr>url = None, basic_auth = None\<rparr>],
            scrape_configs = None\<rparr>"
      "[\<lparr>url = Some (PStr ''http://sink/push''), basic_auth = None\<rparr>,
                              \<lparr>url = None, basic_auth = None\<rparr>]"
      "\<lparr>url = None, basic_auth = None\<rparr>"]
  by simp

section \<open>Jobs\<close>

lemma map_of_dict_set_same [simp]: "map_of (dict_set k v d) k = Some v"
  by (induction d) auto

lemma map_of_dict_set_other [simp]: "k' \<noteq> k \<Longrightarrow> map_of (dict_set k v d) k' = map_of d k'"
  by (induction d) auto

lemma static_loop_ok:
  assumes "inline_stages_ok cfg"
  shows "\<exists>new s. static_loop cfg name idx scs comps = Inr (comps @ new) \<and> length new = 2 * length scs
           \<and> (\<forall>n < length scs. new ! (2 * n) = file_match_component name (idx + n) (scs ! n)
                              \<and> new ! (2 * n + 1) = source_file_component name (idx + n) s)"
proof -
  obtain s where s: "(case pipeline_stages cfg of Some ps \<Rightarrow> convert_pipeline_stages ps
            | None \<Rightarrow> Inr []) = Inr s"
    using assms by (auto simp: inline_stages_ok_def split: option.splits sum.splits)
  have "\<exists>new. static_loop cfg name idx scs comps = Inr (comps @ new) \<and> length new = 2 * length scs
           \<and> (\<forall>n < length scs. new ! (2 * n) = file_match_component name (idx + n) (scs ! n)
                              \<and> new ! (2 * n + 1) = source_file_component name (idx + n) s)"
  proof (induction scs arbitrary: idx comps)
    case Nil
    then show ?case by simp
  next
    case (Cons sc scs)
    let ?a = "file_match_component name idx sc"
    let ?b = "source_file_component name idx s"
    from Cons.IH[of "Suc idx" "comps @ [?a, ?b]"]
    obtain new where n: "static_loop cfg name (Suc idx) scs (comps @ [?a, ?b]) = Inr ((comps @ [?a, ?b]) @ new)"
      "length new = 2 * length scs"
      "\<forall>n < length scs. new ! (2 * n) = file_match_component name (Suc idx + n) (scs ! n)
                              \<and> new ! (2 * n + 1) = source_file_component name (Suc idx + n) s"
      by blast
    show ?case
    proof (intro exI[of _ "?a # ?b # new"] conjI allI impI)
      show "static_loop cfg name idx (sc # scs) comps = Inr (comps @ ?a # ?b # new)"
        using s n(1) by simp
      show "length (?a # ?b # new) = 2 * length (sc # scs)" using n(2) by simp
    next
      fix m assume m: "m < length (sc # scs)"
      show "(?a # ?b # new) ! (2 * m) = file_match_component name (idx + m) ((sc # scs) ! m)"
        using m n(3) by (cases m) auto
      show "(?a # ?b # new) ! (2 * m + 1) = source_file_component name (idx + m) s"
        using m n(3) by (cases m) auto
    qed
  qed
  then show ?thesis by blast
qed



lemma relabel_rules_nonempty:
  "relabel_configs cfg = Some rs \<Longrightarrow> rs \<noteq> [] \<Longrightarrow> relabel_rules cfg \<noteq> []"
  by (simp add: relabel_rules_def convert_relabel_configs_def)

lemma journal_component_fields:
  "ctype (journal_component cfg name) = ''loki.source.journal''"
  "cid (journal_component cfg name) = name"
  "map_of (config (journal_component cfg name)) ''forward_to'' =
     Some (PList [PStr (if relabel_rules cfg \<noteq> [] then ''loki.relabel.'' @ name @ ''_relabel.receiver''
                        else journal_forward_to cfg name)])"
  by (simp_all add: journal_component_def Let_def split: option.splits)

lemma process_journal_config_ok:
  assumes "process_stages_ok cfg"
  shows "\<exists>p. process_journal_config cfg name comps =
           Inr (comps @ (if relabel_rules cfg \<noteq> [] then [relabel_component cfg name] else [])
                @ [journal_component cfg name] @ p)
         \<and> (if needs_process cfg
             then \<exists>ps sts. pipeline_stages cfg = Some ps
                    \<and> convert_pipeline_stages_for_process ps = Inr sts
                    \<and> p = [process_component name sts]
             else p = [])"
  using assms
  by (auto simp: process_journal_config_def process_stages_ok_def needs_process_def Let_def
           split: option.splits sum.splits)

lemma both_in_job:
  assumes "static_configs cfg = Some scs" and "journal cfg = Some j"
      and "inline_stages_ok cfg" and "process_stages_ok cfg"
  shows "\<exists>st jn. process_scrape_config cfg comps = Inr (comps @ st @ jn)
     \<and> length st = 2 * length scs
     \<and> (\<forall>n < length scs.
           ctype (st ! (2 * n)) = ''local.file_match''
         \<and> cid (st ! (2 * n)) = (if n = 0 then scrape_job_name cfg
                                  else scrape_job_name cfg @ ''_'' @ str_nat n)
         \<and> ctype (st ! (2 * n + 1)) = ''loki.source.file''
         \<and> cid (st ! (2 * n + 1)) = cid (st ! (2 * n)))
     \<and> (\<exists>c \<in> set jn. ctype c = ''loki.source.journal'' \<and> cid c = scrape_job_name cfg)"
proof -
  let ?name = "scrape_job_name cfg"
  obtain st s where sl: "static_loop cfg ?name 0 scs comps = Inr (comps @ st)"
      "length st = 2 * length scs"
      "\<forall>n < length scs. st ! (2 * n) = file_match_component ?name (0 + n) (scs ! n)
                        \<and> st ! (2 * n + 1) = source_file_component ?name (0 + n) s"
    using static_loop_ok[OF assms(3), of ?name 0 scs comps] by blast
  have st: "process_static_configs cfg ?name comps = Inr (comps @ st)"
    using sl(1) assms(1) by (simp add: process_static_configs_def)
  have pairs: "\<forall>n < length scs.
           ctype (st ! (2 * n)) = ''local.file_match''
         \<and> cid (st ! (2 * n)) = (if n = 0 then ?name else ?name @ ''_'' @ str_nat n)
         \<and> ctype (st ! (2 * n + 1)) = ''loki.source.file''
         \<and> cid (st ! (2 * n + 1)) = cid (st ! (2 * n))"
    using sl(3)
    by (simp add: file_match_component_def source_file_component_def file_match_id_def)
  obtain p where p: "process_journal_config cfg ?name (comps @ st) =
           Inr ((comps @ st) @ (if relabel_rules cfg \<noteq> [] then [relabel_component cfg ?name] else [])
                @ [journal_component cfg ?name] @ p)"
    using process_journal_config_ok[OF assms(4), of ?name "comps @ st"] by blast
  let ?jn = "(if relabel_rules cfg \<noteq> [] then [relabel_component cfg ?name] else [])
                @ [journal_component cfg ?name] @ p"
  show ?thesis
  proof (rule exI[of _ st], rule exI[of _ ?jn], intro conjI)
    show "process_scrape_config cfg comps = Inr (comps @ st @ ?jn)"
      using st p assms(1,2) by (simp add: process_scrape_config_def)
    show "length st = 2 * length scs" by (rule sl(2))
    show "\<forall>n < length scs.
           ctype (st ! (2 * n)) = ''local.file_match''
         \<and> cid (st ! (2 * n)) = (if n = 0 then ?name else ?name @ ''_'' @ str_nat n)
         \<and> ctype (st ! (2 * n + 1)) = ''loki.source.file''
         \<and> cid (st ! (2 * n + 1)) = cid (st ! (2 * n))" by (rule pairs)
    show "\<exists>c \<in> set ?jn. ctype c = ''loki.source.journal'' \<and> cid c = scrape_job_name cfg"
      by (rule bexI[of _ "journal_component cfg ?name"]) (simp_all add: journal_component_fields)
  qed
qed

lemma job_appends:
  assumes "inline_stages_ok x" and "process_stages_ok x"
  shows "\<exists>new. process_scrape_config x comps = Inr (comps @ new)"
proof -
  let ?name = "scrape_job_name x"
  have a: "\<exists>st. (if static_configs x \<noteq> None then process_static_configs x ?name comps
                  else Inr comps) = Inr (comps @ st)"
  proof (cases "static_configs x")
    case None
    then show ?thesis by simp
  next
    case (Some scs)
    obtain st s where "static_loop x ?name 0 scs comps = Inr (comps @ st)"
      using static_loop_ok[OF assms(1), of ?name 0 scs comps] by blast
    then show ?thesis using Some by (simp add: process_static_configs_def)
  qed
  then obtain st where st: "(if static_configs x \<noteq> None then process_static_configs x ?name comps
                  else Inr comps) = Inr (comps @ st)" by blast
  have "\<exists>jn. (if journal x \<noteq> None then process_journal_config x ?name (comps @ st)
               else Inr (comps @ st)) = Inr ((comps @ st) @ jn)"
  proof (cases "journal x")
    case None
    then show ?thesis by simp
  next
    case (Some j)
    obtain p where "process_journal_config x ?name (comps @ st) =
           Inr ((comps @ st) @ (if relabel_rules x \<noteq> [] then [relabel_component x ?name] else [])
                @ [journal_component x ?name] @ p)"
      using process_journal_config_ok[OF assms(2), of ?name "comps @ st"] by blast
    then show ?thesis using Some by simp
  qed
  then obtain jn where "(if journal x \<noteq> None then process_journal_config x ?name (comps @ st)
               else Inr (comps @ st)) = Inr ((comps @ st) @ jn)" by blast
  then show ?thesis using st by (intro exI[of _ "st @ jn"]) (simp add: process_scrape_config_def)
qed

lemma loop_appends:
  assumes "\<forall>x \<in> set js. inline_stages_ok x \<and> process_stages_ok x"
  shows "\<exists>new. scrape_loop js comps = Inr (comps @ new)"
  using assms
proof (induction js arbitrary: comps)
  case Nil
  then show ?case by simp
next
  case (Cons x js)
  then obtain n1 where n1: "process_scrape_config x comps = Inr (comps @ n1)"
    using job_appends[of x comps] by auto
  from Cons obtain n2 where "scrape_loop js (comps @ n1) = Inr ((comps @ n1) @ n2)"
    by fastforce
  then show ?case using n1 by (intro exI[of _ "n1 @ n2"]) simp
qed

lemma scrape_loop_append:
  "scrape_loop (xs @ ys) comps = ebind (scrape_loop xs comps) (scrape_loop ys)"
  by (induction xs arbitrary: comps) (auto simp: ebind_def split: sum.splits)

lemma loop_around_job:
  assumes "static_configs job = Some scs" and "journal job = Some j"
    and "\<forall>x \<in> set (before @ job # after). inline_stages_ok x \<and> process_stages_ok x"
  shows "\<exists>pre st jn post. scrape_loop (before @ job # after) comps = Inr (comps @ pre @ st @ jn @ post)
     \<and> length st = 2 * length scs
     \<and> (\<forall>n < length scs.
           ctype (st ! (2 * n)) = ''local.file_match''
         \<and> cid (st ! (2 * n)) = (if n = 0 then scrape_job_name job
                                  else scrape_job_name job @ ''_'' @ str_nat n)
         \<and> ctype (st ! (2 * n + 1)) = ''loki.source.file''
         \<and> cid (st ! (2 * n + 1)) = cid (st ! (2 * n)))
     \<and> (\<exists>c \<in> set jn. ctype c = ''loki.source.journal'' \<and> cid c = scrape_job_name job)"
proof -
  have okb: "\<forall>x \<in> set before. inline_stages_ok x \<and> process_stages_ok x"
    and okj: "inline_stages_ok job" "process_stages_ok job"
    and oka: "\<forall>x \<in> set after. inline_stages_ok x \<and> process_stages_ok x"
    using assms(3) by simp_all
  obtain pre where pre: "scrape_loop before comps = Inr (comps @ pre)"
    using loop_appends[OF okb] by blast
  obtain st jn where sj: "process_scrape_config job (comps @ pre) = Inr ((comps @ pre) @ st @ jn)"
     "length st = 2 * length scs"
     "\<forall>n < length scs.
           ctype (st ! (2 * n)) = ''local.file_match''
         \<and> cid (st ! (2 * n)) = (if n = 0 then scrape_job_name job
                                  else scrape_job_name job @ ''_'' @ str_nat n)
         \<and> ctype (st ! (2 * n + 1)) = ''loki.source.file''
         \<and> cid (st ! (2 * n + 1)) = cid (st ! (2 * n))"
     "\<exists>c \<in> set jn. ctype c = ''loki.source.journal'' \<and> cid c = scrape_job_name job"
    using both_in_job[OF assms(1,2) okj, of "comps @ pre"] by blast
  obtain post where post: "scrape_loop after ((comps @ pre) @ st @ jn) = Inr (((comps @ pre) @ st @ jn) @ post)"
    using loop_appends[OF oka] by blast
  have "scrape_loop (before @ job # after) comps = Inr (comps @ pre @ st @ jn @ post)"
    using pre sj(1) post by (simp add: scrape_loop_append)
  then show ?thesis using sj(2,3,4) by blast
qed

text \<open>
  Claim C10. In a document whose jobs translate their stages without an exception, a
  job that has both \<^verbatim>\<open>static_configs\<close> and \<^verbatim>\<open>journal\<close> gets the components of both:
  \<^verbatim>\<open>_process_scrape_configs\<close> tests the two keys with two independent \<^verbatim>\<open>if\<close>
  statements. Its result, and the component list that \<^verbatim>\<open>migrate\<close> builds after the
  sinks, hold the components of the jobs before it, then the file-match and file-source
  pair of every static entry of the job, then the components of its journal, among them
  the \<^verbatim>\<open>loki.source.journal\<close> component named after the job, then the components of the
  jobs after it.
\<close>

theorem static_and_journal_both:
  assumes "scrape_configs cfg = Some (before @ job # after)"
      and "static_configs job = Some scs" and "journal job = Some j"
      and "\<forall>x \<in> set (before @ job # after). inline_stages_ok x \<and> process_stages_ok x"
  shows "(\<exists>pre st jn post.
            process_scrape_configs cfg comps = Inr (comps @ pre @ st @ jn @ post)
          \<and> length st = 2 * length scs
          \<and> (\<forall>n < length scs.
                ctype (st ! (2 * n)) = ''local.file_match''
              \<and> cid (st ! (2 * n)) = (if n = 0 then scrape_job_name job
                                       else scrape_job_name job @ ''_'' @ str_nat n)
              \<and> ctype (st ! (2 * n + 1)) = ''loki.source.file''
              \<and> cid (st ! (2 * n + 1)) = cid (st ! (2 * n)))
          \<and> (\<exists>c \<in> set jn. ctype c = ''loki.source.journal'' \<and> cid c = scrape_job_name job))
       \<and> (\<forall>ws. process_clients cfg [] = Inr ws \<longrightarrow>
            (\<exists>pre st jn post.
               build cfg = Inr (ws @ pre @ st @ jn @ post)
             \<and> length st = 2 * length scs
             \<and> (\<forall>n < length scs.
                   ctype (st ! (2 * n)) = ''local.file_match''
                 \<and> cid (st ! (2 * n)) = (if n = 0 then scrape_job_name job
                                          else scrape_job_name job @ ''_'' @ str_nat n)
                 \<and> ctype (st ! (2 * n + 1)) = ''loki.source.file''
                 \<and> cid (st ! (2 * n + 1)) = cid (st ! (2 * n)))
             \<and> (\<exists>c \<in> set jn. ctype c = ''loki.source.journal'' \<and> cid c = scrape_job_name job)))"
proof (intro conjI allI impI)
  show "\<exists>pre st jn post.
            process_scrape_configs cfg comps = Inr (comps @ pre @ st @ jn @ post)
          \<and> length st = 2 * length scs
          \<and> (\<forall>n < length scs.
                ctype (st ! (2 * n)) = ''local.file_match''
              \<and> cid (st ! (2 * n)) = (if n = 0 then scrape_job_name job
                                       else scrape_job_name job @ ''_'' @ str_nat n)
              \<and> ctype (st ! (2 * n + 1)) = ''loki.source.file''
              \<and> cid (st ! (2 * n + 1)) = cid (st ! (2 * n)))
          \<and> (\<exists>c \<in> set jn. ctype c = ''loki.source.journal'' \<and> cid c = scrape_job_name job)"
    using loop_around_job[OF assms(2,3,4), of comps]
    by (simp add: process_scrape_configs_def assms(1))
next
  fix ws assume ws: "process_clients cfg [] = Inr ws"
  have "build cfg = scrape_loop (before @ job # after) ws"
    using ws by (simp add: build_def process_scrape_configs_def assms(1))
  then show "\<exists>pre st jn post.
               build cfg = Inr (ws @ pre @ st @ jn @ post)
             \<and> length st = 2 * length scs
             \<and> (\<forall>n < length scs.
                   ctype (st ! (2 * n)) = ''local.file_match''
                 \<and> cid (st ! (2 * n)) = (if n = 0 then scrape_job_name job
                                          else scrape_job_name job @ ''_'' @ str_nat n)
                 \<and> ctype (st ! (2 * n + 1)) = ''loki.source.file''
                 \<and> cid (st ! (2 * n + 1)) = cid (st ! (2 * n)))
             \<and> (\<exists>c \<in> set jn. ctype c = ''loki.source.journal'' \<and> cid c = scrape_job_name job)"
    using loop_around_job[OF assms(2,3,4), of ws] by simp
qed

theorem static_and_journal_both_witness:
  "\<exists>ws pre st jn post. build three_job_doc = Inr (ws @ pre @ st @ jn @ post)
     \<and> length ws = 1 \<and> length st = 2
     \<and> ctype (st ! 0) = ''local.file_match'' \<and> cid (st ! 0) = ''sys''
     \<and> ctype (st ! 1) = ''loki.source.file'' \<and> cid (st ! 1) = ''sys''
     \<and> (\<exists>c \<in> set jn. ctype c = ''loki.source.journal'' \<and> cid c = ''sys'')"
proof -
  have sc: "scrape_configs three_job_doc = Some ([app_job] @ mixed_job # [journal_job])"
    by (simp add: three_job_doc_def)
  have a: "static_configs mixed_job = Some [\<lparr>targets = Some [PStr ''localhost''], labels = None\<rparr>]"
    and b: "journal mixed_job = Some \<lparr>max_age = None, journal_labels = None\<rparr>"
    by (simp_all add: mixed_job_def)
  have sts: "convert_pipeline_stages_for_process [regex_stage] =
      Inr [PDict [(''type'', PStr ''stage.regex''), (''expression'', PStr ''level=(.*)'')]]"
    by (simp add: convert_pipeline_stages_for_process_def convert_stage_to_dict_def regex_stage_def)
  have inl: "convert_pipeline_stages [regex_stage] =
      Inr (''stage.regex { expression = '' @ [dq] @ ''level=(.*)'' @ [dq] @ '' }'')"
    by code_simp
  have ok: "\<forall>x \<in> set ([app_job] @ mixed_job # [journal_job]).
              inline_stages_ok x \<and> process_stages_ok x"
    by (simp add: inline_stages_ok_def process_stages_ok_def app_job_def mixed_job_def
          journal_job_def sts inl)
  have nm: "scrape_job_name mixed_job = ''sys''"
    by (simp add: scrape_job_name_def mixed_job_def)
  obtain w where w: "process_clients three_job_doc [] = Inr [w]"
    by (simp add: three_job_doc_def process_clients_def client_component_def sink_def)
  from static_and_journal_both[OF sc a b ok, of "[]"]
  have "\<exists>pre st jn post.
               build three_job_doc = Inr ([w] @ pre @ st @ jn @ post)
             \<and> length st = 2 * length [\<lparr>targets = Some [PStr ''localhost''], labels = None\<rparr>]
             \<and> (\<forall>n < length [\<lparr>targets = Some [PStr ''localhost''], labels = None\<rparr>].
                   ctype (st ! (2 * n)) = ''local.file_match''
                 \<and> cid (st ! (2 * n)) = (if n = 0 then scrape_job_name mixed_job
                                          else scrape_job_name mixed_job @ ''_'' @ str_nat n)
                 \<and> ctype (st ! (2 * n + 1)) = ''loki.source.file''
                 \<and> cid (st ! (2 * n + 1)) = cid (st ! (2 * n)))
             \<and> (\<exists>c \<in> set jn. ctype c = ''loki.source.journal'' \<and> cid c = scrape_job_name mixed_job)"
    using w by blast
  then obtain pre st jn post where r:
     "build three_job_doc = Inr ([w] @ pre @ st @ jn @ post)"
     "length st = 2 * length [\<lparr>targets = Some [PStr ''localhost''], labels = None\<rparr>]"
     "\<forall>n < length [\<lparr>targets = Some [PStr ''localhost''], labels = None\<rparr>].
                   ctype (st ! (2 * n)) = ''local.file_match''
                 \<and> cid (st ! (2 * n)) = (if n = 0 then scrape_job_name mixed_job
                                          else scrape_job_name mixed_job @ ''_'' @ str_nat n)
                 \<and> ctype (st ! (2 * n + 1)) = ''loki.source.file''
                 \<and> cid (st ! (2 * n + 1)) = cid (st ! (2 * n))"
     "\<exists>c \<in> set jn. ctype c = ''loki.source.journal'' \<and> cid c = scrape_job_name mixed_job"
    by (elim exE conjE)
  have p0: "ctype (st ! 0) = ''local.file_match''" "cid (st ! 0) = ''sys''"
       "ctype (st ! 1) = ''loki.source.file''" "cid (st ! 1) = ''sys''"
    using r(3)[rule_format, of 0] by (simp_all add: nm)
  show ?thesis
    by (rule exI[of _ "[w]"], rule exI[of _ pre], rule exI[of _ st], rule exI[of _ jn],
        rule exI[of _ post]) (use r(1,2,4) p0 in \<open>simp add: nm\<close>)
qed

text \<open>
  Claim C2. A document with one sink and one journal job that has pipeline stages and
  relabel rules (both lists non-empty, the stages translating without an exception)
  builds exactly four components in this order: the \<^verbatim>\<open>loki.write\<close> sink
  \<^verbatim>\<open>default\<close>; the \<^verbatim>\<open>loki.relabel\<close> component \<^verbatim>\<open><job>_relabel\<close>, which forwards to
  the receiver of the processing component (the journal's first target); the
  \<^verbatim>\<open>loki.source.journal\<close> component, which forwards to the relabel component; the
  \<^verbatim>\<open>loki.process\<close> component, which forwards to the sink and holds the stages.
\<close>

theorem journal_with_stages_and_relabel:
  assumes "clients cfg = Some [c]" and "client_ok c"
      and "scrape_configs cfg = Some [job]"
      and "static_configs job = None" and "journal job = Some j"
      and "pipeline_stages job = Some ps" and "ps \<noteq> []"
      and "relabel_configs job = Some rs" and "rs \<noteq> []"
      and "convert_pipeline_stages_for_process ps = Inr sts"
  shows "\<exists>w r jn p. build cfg = Inr [w, r, jn, p]
     \<and> ctype w = ''loki.write'' \<and> cid w = ''default''
     \<and> ctype r = ''loki.relabel'' \<and> cid r = scrape_job_name job @ ''_relabel''
     \<and> map_of (config r) ''forward_to''
          = Some (PList [PStr (''loki.process.'' @ scrape_job_name job @ ''.receiver'')])
     \<and> ctype jn = ''loki.source.journal'' \<and> cid jn = scrape_job_name job
     \<and> map_of (config jn) ''forward_to''
          = Some (PList [PStr (''loki.relabel.'' @ scrape_job_name job @ ''_relabel.receiver'')])
     \<and> ctype p = ''loki.process'' \<and> cid p = scrape_job_name job
     \<and> map_of (config p) ''forward_to'' = Some (PList [PStr ''loki.write.default.receiver''])
     \<and> map_of (config p) ''stages'' = Some (PList sts)"
proof -
  let ?name = "scrape_job_name job"
  obtain w where w: "client_component 0 c = Inr w"
    using client_component_ok[OF assms(2)] by blast
  have wf: "ctype w = ''loki.write''" "cid w = ''default''"
    using client_component_result[OF w] by simp_all
  have pc: "process_clients cfg [] = Inr [w]"
    using assms(1) w by (simp add: process_clients_def)
  have np: "needs_process job" using assms(6,7) by (simp add: needs_process_def)
  have rr: "relabel_rules job \<noteq> []" using assms(8,9) by (rule relabel_rules_nonempty)
  have pj: "process_journal_config job ?name [w] =
      Inr [w, relabel_component job ?name, journal_component job ?name, process_component ?name sts]"
    using np rr assms(6,10) by (simp add: process_journal_config_def Let_def)
  have b: "build cfg =
      Inr [w, relabel_component job ?name, journal_component job ?name, process_component ?name sts]"
    using pc pj assms(3,4,5)
    by (simp add: build_def process_scrape_configs_def process_scrape_config_def)
  show ?thesis
    using b wf np rr
    by (simp add: relabel_component_def journal_component_fields process_component_def
                  journal_forward_to_def)
qed

theorem journal_with_stages_and_relabel_witness:
  "\<exists>w r jn p. build journal_doc = Inr [w, r, jn, p]
     \<and> map ctype [w, r, jn, p] = [''loki.write'', ''loki.relabel'', ''loki.source.journal'', ''loki.process'']
     \<and> map cid [w, r, jn, p] = [''default'', ''journal_relabel'', ''journal'', ''journal'']
     \<and> map_of (config r) ''forward_to'' = Some (PList [PStr ''loki.process.journal.receiver''])
     \<and> map_of (config jn) ''forward_to'' = Some (PList [PStr ''loki.relabel.journal_relabel.receiver''])
     \<and> map_of (config p) ''forward_to'' = Some (PList [PStr ''loki.write.default.receiver''])"
proof -
  have sts: "convert_pipeline_stages_for_process [regex_stage] =
      Inr [PDict [(''type'', PStr ''stage.regex''), (''expression'', PStr ''level=(.*)'')]]"
    by (simp add: convert_pipeline_stages_for_process_def convert_stage_to_dict_def regex_stage_def)
  have ok: "client_ok sink" by (simp add: client_ok_def sink_def)
  have nm: "scrape_job_name journal_job = ''journal''"
    by (simp add: scrape_job_name_def journal_job_def)
  have h: "clients journal_doc = Some [sink]" "scrape_configs journal_doc = Some [journal_job]"
    "static_configs journal_job = None"
    "journal journal_job = Some \<lparr>max_age = Some (PStr ''12h''),
                      journal_labels = Some (PDict [(''job'', PStr ''systemd-journal'')])\<rparr>"
    "pipeline_stages journal_job = Some [regex_stage]" "[regex_stage] \<noteq> []"
    "relabel_configs journal_job = Some [[(''source_labels'', PList [PStr ''__journal__systemd_unit'']),
                               (''target_label'', PStr ''unit'')]]"
    "[[(''source_labels'', PList [PStr ''__journal__systemd_unit'']),
                               (''target_label'', PStr ''unit'')]] \<noteq> []"
    by (simp_all add: journal_doc_def journal_job_def)
  obtain w r jn p where "build journal_doc = Inr [w, r, jn, p]"
     "ctype w = ''loki.write''" "cid w = ''default''"
     "ctype r = ''loki.relabel''" "cid r = scrape_job_name journal_job @ ''_relabel''"
     "map_of (config r) ''forward_to''
          = Some (PList [PStr (''loki.process.'' @ scrape_job_name journal_job @ ''.receiver'')])"
     "ctype jn = ''loki.source.journal''" "cid jn = scrape_job_name journal_job"
     "map_of (config jn) ''forward_to''
          = Some (PList [PStr (''loki.relabel.'' @ scrape_job_name journal_job @ ''_relabel.receiver'')])"
     "ctype p = ''loki.process''" "cid p = scrape_job_name journal_job"
     "map_of (config p) ''forward_to'' = Some (PList [PStr ''loki.write.default.receiver''])"
    using journal_with_stages_and_relabel[OF h(1) ok h(2-8) sts] by blast
  then show ?thesis by (simp add: nm)
qed

section \<open>Identifiers\<close>

lemma digit_char_val: "d < 10 \<Longrightarrow> (of_char (digit_char d) :: nat) - 48 = d"
  by (simp add: digit_char_def)

lemma digits_val_str_nat: "digits_val (str_nat n) = n"
proof (induction n rule: str_nat.induct)
  case (1 n)
  show ?case
  proof (cases "n < 10")
    case True
    then show ?thesis
      by (subst str_nat.simps) (simp add: digits_val_def digit_char_val)
  next
    case False
    have "digits_val (str_nat n) = 10 * digits_val (str_nat (n div 10)) + (of_char (digit_char (n mod 10)) - 48)"
      using False by (subst str_nat.simps) (simp add: digits_val_def)
    also have "\<dots> = 10 * (n div 10) + n mod 10"
      using 1[OF False] by (simp add: digit_char_val)
    finally show ?thesis by simp
  qed
qed

lemma str_nat_inj: "str_nat m = str_nat n \<Longrightarrow> m = n"
  by (metis digits_val_str_nat)

lemma startswith_prefix: "startswith s p \<longleftrightarrow> prefix p s"
  unfolding startswith_def prefix_def
  by (metis append_eq_conv_conj append_take_drop_id)

lemma client_id_inj: "client_id i = client_id j \<Longrightarrow> i = j"
  by (auto simp: client_id_def dest: str_nat_inj split: if_splits)

lemma file_match_id_inj: "file_match_id n i = file_match_id n j \<Longrightarrow> i = j"
  by (auto simp: file_match_id_def dest: str_nat_inj split: if_splits)

lemma file_match_id_owned: "owned n (file_match_id n i)"
  by (simp add: owned_def file_match_id_def startswith_def)

lemma relabel_id_owned: "owned n (n @ ''_relabel'')"
  by (simp add: owned_def startswith_def)

lemma owned_cross:
  assumes "owned n1 i" "owned n2 i" "n1 \<noteq> n2"
    and "\<not> startswith n2 (n1 @ ''_'')" "\<not> startswith n1 (n2 @ ''_'')"
  shows False
proof -
  have np: "\<not> prefix (n1 @ ''_'') n2" "\<not> prefix (n2 @ ''_'') n1"
    using assms(4,5) by (simp_all add: startswith_prefix)
  have o: "i = n1 \<or> prefix (n1 @ ''_'') i" "i = n2 \<or> prefix (n2 @ ''_'') i"
    using assms(1,2) by (simp_all add: owned_def startswith_prefix)
  have both: False if a: "prefix (n1 @ ''_'') i" and b: "prefix (n2 @ ''_'') i"
  proof -
    from prefix_same_cases[OF a b]
    have "prefix (n1 @ ''_'') (n2 @ ''_'') \<or> prefix (n2 @ ''_'') (n1 @ ''_'')" .
    then show False
      using np assms(3) by (auto simp: prefix_snoc)
  qed
  show False using o np assms(3) both by blast
qed

lemma client_component_key:
  "client_component idx c = Inr k \<Longrightarrow> comp_key k = (''loki.write'', client_id idx)"
  using client_component_result[of idx c k] by (simp add: comp_key_def client_id_def)

lemma clients_loop_keys:
  "clients_loop idx cs comps = Inr out \<Longrightarrow>
     \<exists>new. out = comps @ new
       \<and> map comp_key new = map (\<lambda>i. (''loki.write'', client_id i)) [idx..<idx + length cs]"
proof (induction cs arbitrary: idx comps)
  case Nil
  then show ?case by simp
next
  case (Cons c cs)
  from Cons.prems obtain k where k: "client_component idx c = Inr k"
    and rest: "clients_loop (Suc idx) cs (comps @ [k]) = Inr out"
    by (auto simp: ebind_eq_Inr)
  from Cons.IH[OF rest] obtain new where n: "out = (comps @ [k]) @ new"
    "map comp_key new = map (\<lambda>i. (''loki.write'', client_id i)) [Suc idx..<Suc idx + length cs]"
    by blast
  have "[idx..<idx + length (c # cs)] = idx # [Suc idx..<Suc idx + length cs]"
    by (simp add: upt_rec)
  then show ?case
    using n client_component_key[OF k] by (intro exI[of _ "k # new"]) simp
qed

lemma distinct_pairs:
  assumes "a \<noteq> b" "inj_on f (set xs)" "distinct xs"
  shows "distinct (concat (map (\<lambda>i. [(a, f i), (b, f i)]) xs))"
  using assms by (induction xs) (auto simp: inj_on_def)

lemma static_loop_keys:
  "static_loop cfg n idx scs comps = Inr out \<Longrightarrow>
     \<exists>new. out = comps @ new
       \<and> map comp_key new =
           concat (map (\<lambda>i. [(''local.file_match'', file_match_id n i),
                               (''loki.source.file'', file_match_id n i)]) [idx..<idx + length scs])"
proof (induction scs arbitrary: idx comps)
  case Nil
  then show ?case by simp
next
  case (Cons sc scs)
  from Cons.prems obtain s where
    rest: "static_loop cfg n (Suc idx) scs
             (comps @ [file_match_component n idx sc, source_file_component n idx s]) = Inr out"
    by (auto simp: ebind_eq_Inr)
  from Cons.IH[OF rest] obtain new where
    n: "out = (comps @ [file_match_component n idx sc, source_file_component n idx s]) @ new"
    "map comp_key new =
           concat (map (\<lambda>i. [(''local.file_match'', file_match_id n i),
                               (''loki.source.file'', file_match_id n i)]) [Suc idx..<Suc idx + length scs])"
    by blast
  have u: "[idx..<idx + length (sc # scs)] = idx # [Suc idx..<Suc idx + length scs]"
    by (simp add: upt_rec)
  have k: "comp_key (file_match_component n idx sc) = (''local.file_match'', file_match_id n idx)"
    "comp_key (source_file_component n idx s) = (''loki.source.file'', file_match_id n idx)"
    by (simp_all add: comp_key_def file_match_component_def source_file_component_def)
  show ?case
    unfolding u
    by (rule exI[of _ "file_match_component n idx sc # source_file_component n idx s # new"])
       (simp add: n k del: upt_Suc)
qed

lemma journal_keys:
  "process_journal_config cfg n comps = Inr out \<Longrightarrow>
     \<exists>new. out = comps @ new
       \<and> map comp_key new =
           (if relabel_rules cfg \<noteq> [] then [(''loki.relabel'', n @ ''_relabel'')] else [])
           @ [(''loki.source.journal'', n)]
           @ (if needs_process cfg then [(''loki.process'', n)] else [])"
  by (auto simp: process_journal_config_def Let_def ebind_eq_Inr comp_key_def
        relabel_component_def journal_component_fields process_component_def
        split: if_splits)

lemma distinct_append_by_fst:
  assumes "distinct xs" "distinct ys" "\<forall>x \<in> set xs. fst x \<in> A" "\<forall>y \<in> set ys. fst y \<in> B"
    and "A \<inter> B = {}"
  shows "distinct (xs @ ys)"
  using assms by (auto simp: disjoint_iff)

lemma static_keys_good:
  assumes "static_loop cfg n 0 scs comps = Inr out"
  shows "\<exists>new. out = comps @ new \<and> distinct (map comp_key new)
     \<and> (\<forall>k \<in> set (map comp_key new).
           fst k \<in> {''local.file_match'', ''loki.source.file''} \<and> owned n (snd k))"
proof -
  from static_loop_keys[OF assms] obtain new where n: "out = comps @ new"
    "map comp_key new =
           concat (map (\<lambda>i. [(''local.file_match'', file_match_id n i),
                               (''loki.source.file'', file_match_id n i)]) [0..<0 + length scs])"
    by blast
  have ne: "''local.file_match'' \<noteq> ''loki.source.file''" by simp
  have inj: "inj_on (file_match_id n) (set [0..<0 + length scs])"
    by (rule inj_onI) (rule file_match_id_inj)
  have d: "distinct (map comp_key new)"
    unfolding n(2) by (rule distinct_pairs[OF ne inj]) simp
  have o: "\<forall>k \<in> set (map comp_key new).
           fst k \<in> {''local.file_match'', ''loki.source.file''} \<and> owned n (snd k)"
    unfolding n(2) using file_match_id_owned[of n] by auto
  show ?thesis using n(1) d o by blast
qed

lemma journal_keys_good:
  assumes "process_journal_config cfg n comps = Inr out"
  shows "\<exists>new. out = comps @ new \<and> distinct (map comp_key new)
     \<and> (\<forall>k \<in> set (map comp_key new).
           fst k \<in> {''loki.relabel'', ''loki.source.journal'', ''loki.process''} \<and> owned n (snd k))"
proof -
  from journal_keys[OF assms] obtain new where n: "out = comps @ new"
    "map comp_key new =
           (if relabel_rules cfg \<noteq> [] then [(''loki.relabel'', n @ ''_relabel'')] else [])
           @ [(''loki.source.journal'', n)]
           @ (if needs_process cfg then [(''loki.process'', n)] else [])"
    by blast
  have self: "owned n n" by (simp add: owned_def)
  have d: "distinct (map comp_key new)"
    unfolding n(2) by simp
  have o: "\<forall>k \<in> set (map comp_key new).
           fst k \<in> {''loki.relabel'', ''loki.source.journal'', ''loki.process''} \<and> owned n (snd k)"
    unfolding n(2) using self relabel_id_owned[of n]
    by (cases "relabel_rules cfg \<noteq> []"; cases "needs_process cfg") simp_all
  show ?thesis using n(1) d o by blast
qed

lemma job_keys_good:
  assumes "process_scrape_config cfg comps = Inr out"
  shows "\<exists>new. out = comps @ new \<and> distinct (map comp_key new)
     \<and> (\<forall>k \<in> set (map comp_key new).
           fst k \<noteq> ''loki.write'' \<and> owned (scrape_job_name cfg) (snd k))"
proof -
  let ?n = "scrape_job_name cfg"
  let ?A = "{''local.file_match'', ''loki.source.file''}"
  let ?B = "{''loki.relabel'', ''loki.source.journal'', ''loki.process''}"
  from assms obtain c1 where
    s: "(if static_configs cfg \<noteq> None then process_static_configs cfg ?n comps else Inr comps) = Inr c1"
    and j: "(if journal cfg \<noteq> None then process_journal_config cfg ?n c1 else Inr c1) = Inr out"
    by (auto simp: process_scrape_config_def ebind_eq_Inr)
  have "\<exists>st. c1 = comps @ st \<and> distinct (map comp_key st)
     \<and> (\<forall>k \<in> set (map comp_key st). fst k \<in> ?A \<and> owned ?n (snd k))"
  proof (cases "static_configs cfg \<noteq> None")
    case True
    then have "static_loop cfg ?n 0 (case static_configs cfg of None \<Rightarrow> [] | Some scs \<Rightarrow> scs) comps = Inr c1"
      using s by (simp add: process_static_configs_def)
    then show ?thesis by (rule static_keys_good)
  next
    case False
    then show ?thesis using s by simp
  qed
  then obtain st where st: "c1 = comps @ st" "distinct (map comp_key st)"
     "\<forall>k \<in> set (map comp_key st). fst k \<in> ?A \<and> owned ?n (snd k)"
    by blast
  have "\<exists>jn. out = c1 @ jn \<and> distinct (map comp_key jn)
     \<and> (\<forall>k \<in> set (map comp_key jn). fst k \<in> ?B \<and> owned ?n (snd k))"
  proof (cases "journal cfg \<noteq> None")
    case True
    then have "process_journal_config cfg ?n c1 = Inr out" using j by simp
    then show ?thesis by (rule journal_keys_good)
  next
    case False
    then show ?thesis using j by simp
  qed
  then obtain jn where jn: "out = c1 @ jn" "distinct (map comp_key jn)"
     "\<forall>k \<in> set (map comp_key jn). fst k \<in> ?B \<and> owned ?n (snd k)"
    by blast
  have disj: "?A \<inter> ?B = {}" by simp
  have d: "distinct (map comp_key st @ map comp_key jn)"
    using st(2) jn(2) st(3) jn(3) disj by (intro distinct_append_by_fst[where A = ?A and B = ?B]) blast+
  have w: "''loki.write'' \<notin> ?A" "''loki.write'' \<notin> ?B" by simp_all
  have o: "\<forall>k \<in> set (map comp_key (st @ jn)). fst k \<noteq> ''loki.write'' \<and> owned ?n (snd k)"
  proof
    fix k assume "k \<in> set (map comp_key (st @ jn))"
    then have "k \<in> set (map comp_key st) \<or> k \<in> set (map comp_key jn)" by auto
    then have "(fst k \<in> ?A \<or> fst k \<in> ?B) \<and> owned ?n (snd k)"
      using st(3) jn(3) by blast
    then show "fst k \<noteq> ''loki.write'' \<and> owned ?n (snd k)"
      using w by metis
  qed
  show ?thesis
    by (rule exI[of _ "st @ jn"]) (use st(1) jn(1) d o in simp)
qed

lemma scrape_loop_keys:
  assumes "scrape_loop jobs comps = Inr out"
    and "distinct (map scrape_job_name jobs)"
    and "\<forall>a \<in> set jobs. \<forall>b \<in> set jobs.
           \<not> startswith (scrape_job_name b) (scrape_job_name a @ ''_'')"
  shows "\<exists>new. out = comps @ new \<and> distinct (map comp_key new)
     \<and> (\<forall>k \<in> set (map comp_key new).
           fst k \<noteq> ''loki.write'' \<and> (\<exists>j \<in> set jobs. owned (scrape_job_name j) (snd k)))"
  using assms
proof (induction jobs arbitrary: comps)
  case Nil
  then show ?case by simp
next
  case (Cons j js)
  from Cons.prems(1) obtain c1 where
    a: "process_scrape_config j comps = Inr c1" and b: "scrape_loop js c1 = Inr out"
    by (auto simp: ebind_eq_Inr)
  from job_keys_good[OF a] obtain n1 where n1: "c1 = comps @ n1" "distinct (map comp_key n1)"
    "\<forall>k \<in> set (map comp_key n1). fst k \<noteq> ''loki.write'' \<and> owned (scrape_job_name j) (snd k)"
    by blast
  have d': "distinct (map scrape_job_name js)" using Cons.prems(2) by simp
  have i': "\<forall>a \<in> set js. \<forall>b \<in> set js.
           \<not> startswith (scrape_job_name b) (scrape_job_name a @ ''_'')"
    using Cons.prems(3) by simp
  from Cons.IH[OF b d' i'] obtain n2 where n2: "out = c1 @ n2" "distinct (map comp_key n2)"
    "\<forall>k \<in> set (map comp_key n2).
           fst k \<noteq> ''loki.write'' \<and> (\<exists>j' \<in> set js. owned (scrape_job_name j') (snd k))"
    by blast
  have disj: "set (map comp_key n1) \<inter> set (map comp_key n2) = {}"
  proof (rule ccontr)
    assume "set (map comp_key n1) \<inter> set (map comp_key n2) \<noteq> {}"
    then obtain k where k: "k \<in> set (map comp_key n1)" "k \<in> set (map comp_key n2)" by blast
    from n1(3) k(1) have o1: "owned (scrape_job_name j) (snd k)" by blast
    from n2(3) k(2) obtain j' where j': "j' \<in> set js" "owned (scrape_job_name j') (snd k)" by blast
    have ne: "scrape_job_name j \<noteq> scrape_job_name j'"
      using Cons.prems(2) j'(1) by auto
    have "\<not> startswith (scrape_job_name j') (scrape_job_name j @ ''_'')"
         "\<not> startswith (scrape_job_name j) (scrape_job_name j' @ ''_'')"
      using Cons.prems(3) j'(1) by simp_all
    with owned_cross[OF o1 j'(2) ne] show False by blast
  qed
  have d: "distinct (map comp_key (n1 @ n2))"
    using n1(2) n2(2) disj by simp
  have o: "\<forall>k \<in> set (map comp_key (n1 @ n2)).
           fst k \<noteq> ''loki.write'' \<and> (\<exists>j' \<in> set (j # js). owned (scrape_job_name j') (snd k))"
  proof
    fix k assume "k \<in> set (map comp_key (n1 @ n2))"
    then consider "k \<in> set (map comp_key n1)" | "k \<in> set (map comp_key n2)" by auto
    then show "fst k \<noteq> ''loki.write'' \<and> (\<exists>j' \<in> set (j # js). owned (scrape_job_name j') (snd k))"
    proof cases
      case 1
      with n1(3) have "fst k \<noteq> ''loki.write'' \<and> owned (scrape_job_name j) (snd k)"
        by (rule bspec)
      then show ?thesis by simp
    next
      case 2
      with n2(3) have "fst k \<noteq> ''loki.write'' \<and> (\<exists>j' \<in> set js. owned (scrape_job_name j') (snd k))"
        by (rule bspec)
      then show ?thesis by auto
    qed
  qed
  show ?case
    by (rule exI[of _ "n1 @ n2"]) (use n1(1) n2(1) d o in simp)
qed

text \<open>
  Claim C1. The builder does not keep identifiers unique. Two jobs without a name both
  get the identifier \<^verbatim>\<open>unknown\<close>, so two journal jobs of that kind build two
  \<^verbatim>\<open>loki.source.journal\<close> components \<^verbatim>\<open>unknown\<close>; and the second static entry of a job
  \<^verbatim>\<open>app\<close> gets the identifier \<^verbatim>\<open>app_1\<close>, which is also the identifier of the first
  entry of a job named \<^verbatim>\<open>app_1\<close>. No suffix is added in either case.
\<close>

theorem name_collision_duplicates:
  "map_sum id (map comp_key) (build unnamed_jobs_doc) =
     Inr [(''loki.write'', ''default''),
          (''loki.source.journal'', ''unknown''),
          (''loki.source.journal'', ''unknown'')]
   \<and> map_sum id (map comp_key) (build suffix_collision_doc) =
     Inr [(''loki.write'', ''default''),
          (''local.file_match'', ''app''), (''loki.source.file'', ''app''),
          (''local.file_match'', ''app_1''), (''loki.source.file'', ''app_1''),
          (''local.file_match'', ''app_1''), (''loki.source.file'', ''app_1'')]"
proof (intro conjI)
  show "map_sum id (map comp_key) (build unnamed_jobs_doc) =
     Inr [(''loki.write'', ''default''),
          (''loki.source.journal'', ''unknown''),
          (''loki.source.journal'', ''unknown'')]"
    by (simp add: unnamed_jobs_doc_def unnamed_journal_job_def sink_def build_def
          process_clients_def client_component_def client_id_def
          process_scrape_configs_def process_scrape_config_def scrape_job_name_def
          process_journal_config_def relabel_rules_def needs_process_def
          comp_key_def journal_component_fields)
  show "map_sum id (map comp_key) (build suffix_collision_doc) =
     Inr [(''loki.write'', ''default''),
          (''local.file_match'', ''app''), (''loki.source.file'', ''app''),
          (''local.file_match'', ''app_1''), (''loki.source.file'', ''app_1''),
          (''local.file_match'', ''app_1''), (''loki.source.file'', ''app_1'')]"
    by (simp add: suffix_collision_doc_def app_job_def app_1_job_def sink_def build_def
          process_clients_def client_component_def client_id_def
          process_scrape_configs_def process_scrape_config_def scrape_job_name_def
          process_static_configs_def file_match_component_def source_file_component_def
          file_match_id_def str_nat_1 comp_key_def)
qed

text \<open>
  The two documents above have colliding job names. Where the job names of a document
  are pairwise distinct and none of them begins with another one followed by an
  underscore, the kind and identifier of a component together are unique in the built
  list.
\<close>

lemma keys_distinct_without_collisions:
  assumes "build cfg = Inr comps"
    and "jobs = (case scrape_configs cfg of None \<Rightarrow> [] | Some js \<Rightarrow> js)"
    and "distinct (map scrape_job_name jobs)"
    and "\<forall>a \<in> set jobs. \<forall>b \<in> set jobs.
           \<not> startswith (scrape_job_name b) (scrape_job_name a @ ''_'')"
  shows "distinct (map (\<lambda>c. (ctype c, cid c)) comps)
     \<and> (\<forall>c \<in> set comps.
          (ctype c = ''loki.write''
             \<and> (\<exists>i. cid c = (if i = 0 then ''default'' else ''client_'' @ str_nat i)))
        \<or> (ctype c \<noteq> ''loki.write''
             \<and> (\<exists>j \<in> set jobs. cid c = scrape_job_name j
                                 \<or> startswith (cid c) (scrape_job_name j @ ''_''))))"
proof -
  from assms(1) obtain c0 where
    a: "process_clients cfg [] = Inr c0" and b: "process_scrape_configs cfg c0 = Inr comps"
    by (auto simp: build_def ebind_eq_Inr)
  let ?cs = "case clients cfg of None \<Rightarrow> [] | Some cs \<Rightarrow> cs"
  from a have "clients_loop 0 ?cs [] = Inr c0" by (simp add: process_clients_def)
  from clients_loop_keys[OF this]
  have k0: "map comp_key c0 = map (\<lambda>i. (''loki.write'', client_id i)) [0..<0 + length ?cs]"
    by auto
  have inj: "inj_on (\<lambda>i. (''loki.write'', client_id i)) S" for S
    by (rule inj_onI) (auto dest: client_id_inj)
  have d0: "distinct (map comp_key c0)"
    unfolding k0 by (simp add: distinct_map inj)
  have w0: "\<forall>k \<in> set (map comp_key c0). fst k = ''loki.write'' \<and> (\<exists>i. snd k = client_id i)"
    unfolding k0 by auto
  from b have "scrape_loop jobs c0 = Inr comps"
    by (simp add: process_scrape_configs_def assms(2))
  from scrape_loop_keys[OF this assms(3,4)] obtain new where n: "comps = c0 @ new"
    "distinct (map comp_key new)"
    "\<forall>k \<in> set (map comp_key new).
           fst k \<noteq> ''loki.write'' \<and> (\<exists>j \<in> set jobs. owned (scrape_job_name j) (snd k))"
    by blast
  have disj: "set (map comp_key c0) \<inter> set (map comp_key new) = {}"
    using w0 n(3) by blast
  have "distinct (map comp_key comps)"
    using d0 n(2) disj by (simp add: n(1))
  then have d: "distinct (map (\<lambda>c. (ctype c, cid c)) comps)"
    by (simp add: comp_key_def[abs_def])
  have o: "\<forall>c \<in> set comps.
          (ctype c = ''loki.write''
             \<and> (\<exists>i. cid c = (if i = 0 then ''default'' else ''client_'' @ str_nat i)))
        \<or> (ctype c \<noteq> ''loki.write''
             \<and> (\<exists>j \<in> set jobs. cid c = scrape_job_name j
                                 \<or> startswith (cid c) (scrape_job_name j @ ''_'')))"
  proof
    fix c assume "c \<in> set comps"
    then consider "c \<in> set c0" | "c \<in> set new" using n(1) by auto
    then show "(ctype c = ''loki.write''
             \<and> (\<exists>i. cid c = (if i = 0 then ''default'' else ''client_'' @ str_nat i)))
        \<or> (ctype c \<noteq> ''loki.write''
             \<and> (\<exists>j \<in> set jobs. cid c = scrape_job_name j
                                 \<or> startswith (cid c) (scrape_job_name j @ ''_'')))"
    proof cases
      case 1
      then have "comp_key c \<in> set (map comp_key c0)" by simp
      with w0 have "fst (comp_key c) = ''loki.write'' \<and> (\<exists>i. snd (comp_key c) = client_id i)"
        by blast
      then show ?thesis by (simp add: comp_key_def client_id_def)
    next
      case 2
      then have "comp_key c \<in> set (map comp_key new)" by simp
      with n(3) have "fst (comp_key c) \<noteq> ''loki.write''
          \<and> (\<exists>j \<in> set jobs. owned (scrape_job_name j) (snd (comp_key c)))"
        by blast
      then show ?thesis by (simp add: comp_key_def owned_def)
    qed
  qed
  show ?thesis using d o by (rule conjI)
qed

end
